theory Spec2Isabelle
  imports Main "HOL-Library.Char_ord" "HOL-Library.List_Lexorder" "HOL-Library.Multiset"
begin

section \<open>The semantic-version engine of goctor (package semver)\<close>

text \<open>
  A shallow embedding of \<^verbatim>\<open>internal/semver/semver.go\<close>: the data model, the
  comparison, the constraint evaluator, the two parsers (with the regular expressions
  they match against) and the rendering of a version.

  Go strings are byte sequences; they are modelled as \<^typ>\<open>string\<close>, a list of
  8-bit characters. Go's \<^verbatim>\<open>int\<close> is taken to be 64 bits wide. The code does no
  arithmetic on version numbers, it only compares them, so the fields are modelled as
  \<^typ>\<open>int\<close>; the one place where the width matters is \<^verbatim>\<open>strconv.Atoi\<close>,
  whose range check is written out below.
\<close>

subsection \<open>Data model\<close>

record Version =
  Major :: int
  Minor :: int
  Patch :: int
  Prerelease :: string
  Build :: string

text \<open>
  \<^verbatim>\<open>type Operator int\<close> with the constants numbered by \<^verbatim>\<open>iota\<close>. The type is
  open in Go (any integer converts to an Operator), which is why the evaluator has a
  default branch.
\<close>

type_synonym Operator = int

definition OpEqual :: Operator where "OpEqual = 0"
definition OpGreater :: Operator where "OpGreater = 1"
definition OpGreaterEqual :: Operator where "OpGreaterEqual = 2"
definition OpLess :: Operator where "OpLess = 3"
definition OpLessEqual :: Operator where "OpLessEqual = 4"
definition OpTilde :: Operator where "OpTilde = 5"
definition OpCaret :: Operator where "OpCaret = 6"
definition OpNotEqual :: Operator where "OpNotEqual = 7"

record Constraint =
  Operator :: Operator
  Version :: Version

text \<open>
  The error values of the package. Go builds them as messages with
  \<^verbatim>\<open>errors.New\<close> and \<^verbatim>\<open>fmt.Errorf\<close>; each constructor stands for one message
  format and carries what the format interpolates.
\<close>

datatype error =
    ErrEmptyVersion
  | ErrInvalidVersionFormat string
  | ErrInvalidMajor string
  | ErrInvalidMinor string
  | ErrInvalidPatch string
  | ErrEmptyConstraint
  | ErrInvalidConstraintFormat string
  | ErrUnknownOperator string
  | ErrInvalidVersionInConstraint error
  | ErrFailedToParseConstraint string error

subsection \<open>Comparison\<close>

text \<open>
  \<^verbatim>\<open>pre1 < pre2\<close> on Go strings is the lexicographic order on bytes; on
  \<^typ>\<open>string\<close> that is the order of the library theory \<open>List_Lexorder\<close> over the
  byte order of \<open>Char_ord\<close>.
\<close>

definition comparePrerelease :: "string \<Rightarrow> string \<Rightarrow> int" where
  "comparePrerelease pre1 pre2 =
     (if pre1 = [] \<and> pre2 = [] then 0
      else if pre1 = [] then 1
      else if pre2 = [] then - 1
      else if pre1 < pre2 then - 1
      else if pre1 > pre2 then 1
      else 0)"

definition Compare :: "Version \<Rightarrow> Version \<Rightarrow> int" where
  "Compare v other =
     (if Major v \<noteq> Major other then (if Major v < Major other then - 1 else 1)
      else if Minor v \<noteq> Minor other then (if Minor v < Minor other then - 1 else 1)
      else if Patch v \<noteq> Patch other then (if Patch v < Patch other then - 1 else 1)
      else comparePrerelease (Prerelease v) (Prerelease other))"

subsection \<open>Satisfaction\<close>

definition tildeConstraint :: "Constraint \<Rightarrow> Version \<Rightarrow> bool" where
  "tildeConstraint c version =
     (if Major version \<noteq> Major (Version c) then False
      else if Minor version \<noteq> Minor (Version c) then False
      else Patch version \<ge> Patch (Version c))"

definition caretConstraint :: "Constraint \<Rightarrow> Version \<Rightarrow> bool" where
  "caretConstraint c version =
     (if Major version \<noteq> Major (Version c) then False
      else if Major (Version c) = 0 then
        (if Minor version \<noteq> Minor (Version c) then False
         else if Minor (Version c) = 0 then Patch version = Patch (Version c)
         else Patch version \<ge> Patch (Version c))
      else if Minor version > Minor (Version c) then True
      else if Minor version = Minor (Version c) then Patch version \<ge> Patch (Version c)
      else False)"

definition IsSatisfiedBy :: "Constraint \<Rightarrow> Version \<Rightarrow> bool" where
  "IsSatisfiedBy c version =
     (let comparison = Compare version (Version c) in
      if Operator c = OpEqual then comparison = 0
      else if Operator c = OpGreater then comparison > 0
      else if Operator c = OpGreaterEqual then comparison \<ge> 0
      else if Operator c = OpLess then comparison < 0
      else if Operator c = OpLessEqual then comparison \<le> 0
      else if Operator c = OpNotEqual then comparison \<noteq> 0
      else if Operator c = OpTilde then tildeConstraint c version
      else if Operator c = OpCaret then caretConstraint c version
      else False)"

text \<open>The loop of \<^verbatim>\<open>SatisfiesAll\<close> returns false at the first unsatisfied constraint.\<close>

fun SatisfiesAll :: "Version \<Rightarrow> Constraint list \<Rightarrow> bool" where
  "SatisfiesAll version [] = True"
| "SatisfiesAll version (constraint # constraints) =
     (if \<not> IsSatisfiedBy constraint version then False
      else SatisfiesAll version constraints)"

subsection \<open>Regular expressions\<close>

text \<open>
  Both parsers call \<^verbatim>\<open>regexp.FindStringSubmatch\<close> on a pattern anchored with
  \<^verbatim>\<open>^\<close> and \<^verbatim>\<open>$\<close>. Go's engine returns the match a backtracking matcher finds
  first (leftmost-first: an alternation tries its branches in order, \<^verbatim>\<open>?\<close> and
  \<^verbatim>\<open>+\<close> are greedy), and the text of each capture group, the empty string for a
  group that took no part. The constructors below are the ones the two patterns use;
  \<^verbatim>\<open>+\<close> occurs in them on character classes only.
\<close>

datatype regex =
    Str string
  | Plus1 "char \<Rightarrow> bool"
  | Opt regex
  | Seq regex regex
  | Alt regex regex
  | Group nat regex

type_synonym captures = "nat \<Rightarrow> string"

text \<open>
  \<open>tryLens n s k\<close> offers the continuation the input with \<open>n\<close>, \<open>n - 1\<close>, ..., \<open>1\<close>
  characters consumed, longest first: the greedy \<^verbatim>\<open>+\<close>.
\<close>

fun tryLens :: "nat \<Rightarrow> string \<Rightarrow> (string \<Rightarrow> 'a option) \<Rightarrow> 'a option" where
  "tryLens 0 s k = None"
| "tryLens (Suc n) s k =
     (case k (drop (Suc n) s) of Some r \<Rightarrow> Some r | None \<Rightarrow> tryLens n s k)"

text \<open>
  \<open>backtrack r s c k\<close> matches \<open>r\<close> at the front of \<open>s\<close> and hands the rest of the
  input and the captures to the continuation \<open>k\<close>; when \<open>k\<close> fails it tries the next
  way of matching \<open>r\<close>.
\<close>

fun backtrack ::
  "regex \<Rightarrow> string \<Rightarrow> captures \<Rightarrow> (string \<Rightarrow> captures \<Rightarrow> captures option) \<Rightarrow> captures option"
where
  "backtrack (Str w) s c k =
     (if take (length w) s = w then k (drop (length w) s) c else None)"
| "backtrack (Plus1 p) s c k =
     tryLens (length (takeWhile p s)) s (\<lambda>rest. k rest c)"
| "backtrack (Opt r) s c k =
     (case backtrack r s c k of Some m \<Rightarrow> Some m | None \<Rightarrow> k s c)"
| "backtrack (Seq r1 r2) s c k =
     backtrack r1 s c (\<lambda>rest c'. backtrack r2 rest c' k)"
| "backtrack (Alt r1 r2) s c k =
     (case backtrack r1 s c k of Some m \<Rightarrow> Some m | None \<Rightarrow> backtrack r2 s c k)"
| "backtrack (Group i r) s c k =
     backtrack r s c (\<lambda>rest c'. k rest (c'(i := take (length s - length rest) s)))"

text \<open>
  \<^verbatim>\<open>re.FindStringSubmatch(s)\<close> for a pattern \<^verbatim>\<open>^r$\<close>: the match starts at the first
  byte and the final continuation accepts at the end of the input only (without the
  \<^verbatim>\<open>m\<close> flag Go's \<^verbatim>\<open>$\<close> is the end of the text). \<open>None\<close> is Go's \<^verbatim>\<open>nil\<close>;
  \<open>matches i\<close> is \<^verbatim>\<open>matches[i]\<close> for the groups of the pattern.
\<close>

definition atEnd :: "string \<Rightarrow> captures \<Rightarrow> captures option" where
  "atEnd rest c = (if rest = [] then Some c else None)"

definition FindStringSubmatch :: "regex \<Rightarrow> string \<Rightarrow> captures option" where
  "FindStringSubmatch r s = backtrack r s (\<lambda>_. []) atEnd"

definition isDigit :: "char \<Rightarrow> bool" where
  "isDigit c = (CHR ''0'' \<le> c \<and> c \<le> CHR ''9'')"

text \<open>The class \<^verbatim>\<open>[0-9A-Za-z\-\.]\<close>.\<close>

definition isIdentChar :: "char \<Rightarrow> bool" where
  "isIdentChar c =
     (isDigit c \<or> (CHR ''A'' \<le> c \<and> c \<le> CHR ''Z'') \<or> (CHR ''a'' \<le> c \<and> c \<le> CHR ''z'')
      \<or> c = CHR ''-'' \<or> c = CHR ''.'')"

text \<open>The class \<^verbatim>\<open>.\<close>: without the \<^verbatim>\<open>s\<close> flag, anything but a newline.\<close>

definition isAnyChar :: "char \<Rightarrow> bool" where
  "isAnyChar c = (c \<noteq> CHR 0x0A)"

text \<open>
  \<^verbatim>\<open>^v?(\d+)(?:\.(\d+))?(?:\.(\d+))?(?:-([0-9A-Za-z\-\.]+))?(?:\+([0-9A-Za-z\-\.]+))?$\<close>
\<close>

definition versionRegex :: regex where
  "versionRegex =
     Seq (Opt (Str ''v''))
    (Seq (Group 1 (Plus1 isDigit))
    (Seq (Opt (Seq (Str ''.'') (Group 2 (Plus1 isDigit))))
    (Seq (Opt (Seq (Str ''.'') (Group 3 (Plus1 isDigit))))
    (Seq (Opt (Seq (Str ''-'') (Group 4 (Plus1 isIdentChar))))
         (Opt (Seq (Str ''+'') (Group 5 (Plus1 isIdentChar))))))))"

text \<open>\<^verbatim>\<open>^(>=|<=|>|<|~|\^|!=)?(.+)$\<close>\<close>

definition constraintRegex :: regex where
  "constraintRegex =
     Seq (Opt (Group 1
            (Alt (Str ''>='') (Alt (Str ''<='') (Alt (Str ''>'') (Alt (Str ''<'')
            (Alt (Str ''~'') (Alt (Str ''^'') (Str ''!=''))))))))) 
         (Group 2 (Plus1 isAnyChar))"

subsection \<open>Numbers as text\<close>

text \<open>
  \<^verbatim>\<open>strconv.Atoi\<close>: an optional sign, then one or more decimal digits; a syntax
  error otherwise, and a range error when the value does not fit a 64-bit \<^verbatim>\<open>int\<close>.
\<close>

datatype numError = ErrSyntax | ErrRange

definition digitVal :: "char \<Rightarrow> int" where
  "digitVal c = of_char c - 48"

definition decValue :: "string \<Rightarrow> int" where
  "decValue ds = foldl (\<lambda>acc c. 10 * acc + digitVal c) 0 ds"

definition maxInt :: int where
  "maxInt = 2 ^ 63 - 1"

definition minInt :: int where
  "minInt = - (2 ^ 63)"

definition Atoi :: "string \<Rightarrow> numError + int" where
  "Atoi s =
     (let neg = (s \<noteq> [] \<and> hd s = CHR ''-'');
          ds = (if s \<noteq> [] \<and> (hd s = CHR ''+'' \<or> hd s = CHR ''-'') then tl s else s)
      in if ds = [] \<or> \<not> list_all isDigit ds then Inl ErrSyntax
         else let n = (if neg then - decValue ds else decValue ds)
              in if n < minInt \<or> maxInt < n then Inl ErrRange else Inr n)"

text \<open>The verb \<^verbatim>\<open>%d\<close> of \<^verbatim>\<open>fmt.Sprintf\<close>: decimal, with a minus sign when negative.\<close>

definition digitChar :: "int \<Rightarrow> char" where
  "digitChar d = char_of (48 + d)"

text \<open>The decimal digits of a number that is not negative.\<close>

function decimal :: "int \<Rightarrow> string" where
  "decimal n = (if n < 10 then [digitChar n] else decimal (n div 10) @ [digitChar (n mod 10)])"
  by pat_completeness auto
termination
  by (relation "measure nat") auto

declare decimal.simps [simp del]

definition formatInt :: "int \<Rightarrow> string" where
  "formatInt i = (if i < 0 then CHR ''-'' # decimal (- i) else decimal i)"

subsection \<open>Parsing a version\<close>

definition ParseVersion :: "string \<Rightarrow> error + Version" where
  "ParseVersion versionStr =
     (if versionStr = [] then Inl ErrEmptyVersion
      else case FindStringSubmatch versionRegex versionStr of
        None \<Rightarrow> Inl (ErrInvalidVersionFormat versionStr)
      | Some matches \<Rightarrow>
          (case Atoi (matches 1) of
            Inl _ \<Rightarrow> Inl (ErrInvalidMajor (matches 1))
          | Inr major \<Rightarrow>
              (case (if matches 2 \<noteq> [] then Atoi (matches 2) else Inr 0) of
                Inl _ \<Rightarrow> Inl (ErrInvalidMinor (matches 2))
              | Inr minor \<Rightarrow>
                  (case (if matches 3 \<noteq> [] then Atoi (matches 3) else Inr 0) of
                    Inl _ \<Rightarrow> Inl (ErrInvalidPatch (matches 3))
                  | Inr patch \<Rightarrow>
                      Inr \<lparr>Major = major, Minor = minor, Patch = patch,
                           Prerelease = (if matches 4 \<noteq> [] then matches 4 else []),
                           Build = (if matches 5 \<noteq> [] then matches 5 else [])\<rparr>))))"

subsection \<open>Parsing a constraint\<close>

text \<open>The \<^verbatim>\<open>switch operatorStr\<close> of \<^verbatim>\<open>ParseConstraint\<close>; \<open>None\<close> is its default branch.\<close>

definition operatorOf :: "string \<Rightarrow> Operator option" where
  "operatorOf operatorStr =
     (if operatorStr = ''>='' then Some OpGreaterEqual
      else if operatorStr = ''>'' then Some OpGreater
      else if operatorStr = ''<='' then Some OpLessEqual
      else if operatorStr = ''<'' then Some OpLess
      else if operatorStr = ''~'' then Some OpTilde
      else if operatorStr = ''^'' then Some OpCaret
      else if operatorStr = ''!='' then Some OpNotEqual
      else if operatorStr = [] \<or> operatorStr = ''='' then Some OpEqual
      else None)"

definition ParseConstraint :: "string \<Rightarrow> error + Constraint" where
  "ParseConstraint constraintStr =
     (if constraintStr = [] then Inl ErrEmptyConstraint
      else case FindStringSubmatch constraintRegex constraintStr of
        None \<Rightarrow> Inl (ErrInvalidConstraintFormat constraintStr)
      | Some matches \<Rightarrow>
          (let operatorStr = matches 1; versionStr = matches 2 in
           case operatorOf operatorStr of
             None \<Rightarrow> Inl (ErrUnknownOperator operatorStr)
           | Some operator \<Rightarrow>
               (case ParseVersion versionStr of
                 Inl err \<Rightarrow> Inl (ErrInvalidVersionInConstraint err)
               | Inr version \<Rightarrow> Inr \<lparr>Operator = operator, Version = version\<rparr>)))"

subsection \<open>Rendering a version\<close>

definition String :: "Version \<Rightarrow> string" where
  "String v =
     (let result = formatInt (Major v) @ ''.'' @ formatInt (Minor v) @ ''.'' @ formatInt (Patch v);
          result = (if Prerelease v \<noteq> [] then result @ ''-'' @ Prerelease v else result);
          result = (if Build v \<noteq> [] then result @ ''+'' @ Build v else result)
      in result)"

subsection \<open>Parsing a list of constraints\<close>

text \<open>
  \<^verbatim>\<open>strings.Fields\<close> splits around runs of white space as \<^verbatim>\<open>unicode.IsSpace\<close>
  defines it: the ASCII characters tab, newline, vertical tab, form feed, carriage
  return and space, and the code points U+0085, U+00A0, U+1680, U+2000 to U+200A,
  U+2028, U+2029, U+202F, U+205F and U+3000, which a Go string holds in UTF-8.
  \<open>spaceWidth s\<close> is the number of bytes of the white-space character \<open>s\<close> starts
  with, and 0 when it starts with none.
\<close>

definition asciiSpace :: "char \<Rightarrow> bool" where
  "asciiSpace c = (c = CHR 0x09 \<or> c = CHR 0x0A \<or> c = CHR 0x0B \<or> c = CHR 0x0C \<or> c = CHR 0x0D
     \<or> c = CHR 0x20)"

definition spaceWidth :: "string \<Rightarrow> nat" where
  "spaceWidth s =
     (case s of
        [] \<Rightarrow> 0
      | b0 # t \<Rightarrow>
          if asciiSpace b0 then 1
          else if b0 = CHR 0xC2 then
            (case t of
               b1 # _ \<Rightarrow> if b1 = CHR 0x85 \<or> b1 = CHR 0xA0 then 2 else 0
             | [] \<Rightarrow> 0)
          else if b0 = CHR 0xE1 \<or> b0 = CHR 0xE2 \<or> b0 = CHR 0xE3 then
            (case t of
               b1 # b2 # _ \<Rightarrow>
                 if (b0 = CHR 0xE1 \<and> b1 = CHR 0x9A \<and> b2 = CHR 0x80)
                    \<or> (b0 = CHR 0xE2 \<and> b1 = CHR 0x80
                        \<and> ((CHR 0x80 \<le> b2 \<and> b2 \<le> CHR 0x8A) \<or> b2 = CHR 0xA8 \<or> b2 = CHR 0xA9
                            \<or> b2 = CHR 0xAF))
                    \<or> (b0 = CHR 0xE2 \<and> b1 = CHR 0x81 \<and> b2 = CHR 0x9F)
                    \<or> (b0 = CHR 0xE3 \<and> b1 = CHR 0x80 \<and> b2 = CHR 0x80)
                 then 3 else 0
             | _ \<Rightarrow> 0)
          else 0)"

text \<open>
  \<open>fieldsFrom cur s\<close> scans \<open>s\<close> with the bytes of the field under way in \<open>cur\<close>:
  a white-space character ends the field, any other byte extends it. (Go steps over a
  character other than white space as a whole; no byte inside a UTF-8 sequence can
  start one of the encodings above, so stepping over it byte by byte finds the same
  fields.)
\<close>

function fieldsFrom :: "string \<Rightarrow> string \<Rightarrow> string list" where
  "fieldsFrom cur [] = (if cur = [] then [] else [cur])"
| "fieldsFrom cur (b # t) =
     (if 0 < spaceWidth (b # t)
      then (if cur = [] then [] else [cur]) @ fieldsFrom [] (drop (spaceWidth (b # t)) (b # t))
      else fieldsFrom (cur @ [b]) t)"
  by pat_completeness auto
termination
  by (relation "measure (\<lambda>(cur, s). length s)") auto

definition Fields :: "string \<Rightarrow> string list" where
  "Fields s = fieldsFrom [] s"

text \<open>The loop of \<^verbatim>\<open>ParseConstraints\<close> over the fields: the first error ends it.\<close>

fun parseParts :: "string list \<Rightarrow> error + Constraint list" where
  "parseParts [] = Inr []"
| "parseParts (part # parts) =
     (case ParseConstraint part of
        Inl err \<Rightarrow> Inl (ErrFailedToParseConstraint part err)
      | Inr constraint \<Rightarrow>
          (case parseParts parts of
             Inl err \<Rightarrow> Inl err
           | Inr constraints \<Rightarrow> Inr (constraint # constraints)))"

definition ParseConstraints :: "string \<Rightarrow> error + Constraint list" where
  "ParseConstraints constraintStr =
     (if constraintStr = [] then Inl ErrEmptyConstraint
      else parseParts (Fields constraintStr))"

subsection \<open>The specification's rules, written out\<close>

text \<open>
  The lexicographic order on byte strings, as the specification words it for two
  prereleases: the first differing byte decides, and a proper prefix is smaller.
\<close>

fun bytesLess :: "string \<Rightarrow> string \<Rightarrow> bool" where
  "bytesLess [] [] = False"
| "bytesLess [] (y # ys) = True"
| "bytesLess (x # xs) [] = False"
| "bytesLess (x # xs) (y # ys) =
     ((of_char x :: nat) < of_char y \<or> (x = y \<and> bytesLess xs ys))"

text \<open>
  The caret rule as the specification's table states it: for a bound \<open>0.0.z\<close> it asks
  for patch equality and says nothing of the candidate's minor.
\<close>

definition caretAsSpecified :: "Version \<Rightarrow> Version \<Rightarrow> bool" where
  "caretAsSpecified b v =
     (if Major v \<noteq> Major b then False
      else if Major b = 0 then
        (if Minor b = 0 then Patch v = Patch b
         else Minor v = Minor b \<and> Patch v \<ge> Patch b)
      else Minor v > Minor b \<or> (Minor v = Minor b \<and> Patch v \<ge> Patch b))"

subsection \<open>The version pattern, piece by piece\<close>

text \<open>
  The continuations the matcher runs through on \<^const>\<open>versionRegex\<close>, from the end of
  the pattern backwards: what is left to match after the prerelease group, after the
  patch group, and so on. They name the parts of one run of \<^const>\<open>backtrack\<close> and are
  used in the proofs only.
\<close>

definition tailBuild :: "string \<Rightarrow> captures \<Rightarrow> captures option" where
  "tailBuild s c = backtrack (Opt (Seq (Str ''+'') (Group 5 (Plus1 isIdentChar)))) s c atEnd"

definition tailPre :: "string \<Rightarrow> captures \<Rightarrow> captures option" where
  "tailPre s c = backtrack (Opt (Seq (Str ''-'') (Group 4 (Plus1 isIdentChar)))) s c tailBuild"

definition tailPatch :: "string \<Rightarrow> captures \<Rightarrow> captures option" where
  "tailPatch s c = backtrack (Opt (Seq (Str ''.'') (Group 3 (Plus1 isDigit)))) s c tailPre"

definition tailMinor :: "string \<Rightarrow> captures \<Rightarrow> captures option" where
  "tailMinor s c = backtrack (Opt (Seq (Str ''.'') (Group 2 (Plus1 isDigit)))) s c tailPatch"

definition tailMajor :: "string \<Rightarrow> captures \<Rightarrow> captures option" where
  "tailMajor s c = backtrack (Group 1 (Plus1 isDigit)) s c tailMinor"

definition stripV :: "string \<Rightarrow> string" where
  "stripV s = (if s \<noteq> [] \<and> hd s = CHR ''v'' then tl s else s)"

subsection \<open>White space only\<close>

text \<open>
  A string that is a sequence of white-space characters and nothing else, and a byte
  that cannot start the encoding of a white-space character.
\<close>

function onlySpace :: "string \<Rightarrow> bool" where
  "onlySpace s =
     (if s = [] then True
      else if spaceWidth s = 0 then False
      else onlySpace (drop (spaceWidth s) s))"
  by pat_completeness auto
termination
  by (relation "measure length") auto

declare onlySpace.simps [simp del]

definition plainByte :: "char \<Rightarrow> bool" where
  "plainByte c = (\<not> asciiSpace c \<and> c \<noteq> CHR 0xC2 \<and> c \<noteq> CHR 0xE1 \<and> c \<noteq> CHR 0xE2 \<and> c \<noteq> CHR 0xE3)"

subsection \<open>The version grammar\<close>

text \<open>
  The grammar of the specification,
  \<^verbatim>\<open>["v"] MAJOR ["." MINOR ["." PATCH]] ["-" PRERELEASE] ["+" BUILD]\<close>,
  as a recogniser that does not go through the pattern or the matcher. After an optional
  \<^verbatim>\<open>v\<close>, the build is what follows the first \<^verbatim>\<open>+\<close>, the prerelease is what follows
  the first \<^verbatim>\<open>-\<close> before it, and the text before both is cut at its dots into the
  numeric components. \<open>matchesGrammar number ident s\<close> holds when there are at most three
  components, each one a \<open>number\<close>, and the prerelease and the build, where present,
  are each an \<open>ident\<close>.
\<close>

fun splitOn :: "char \<Rightarrow> string \<Rightarrow> string list" where
  "splitOn d [] = [[]]"
| "splitOn d (c # cs) =
     (if c = d then [] # splitOn d cs
      else (case splitOn d cs of [] \<Rightarrow> [[c]] | x # xs \<Rightarrow> (c # x) # xs))"

definition versionParts :: "string \<Rightarrow> string list \<times> string option \<times> string option" where
  "versionParts s =
     (let body = stripV s;
          core = takeWhile (\<lambda>c. c \<noteq> CHR ''+'') body;
          afterCore = dropWhile (\<lambda>c. c \<noteq> CHR ''+'') body;
          nums = takeWhile (\<lambda>c. c \<noteq> CHR ''-'') core;
          afterNums = dropWhile (\<lambda>c. c \<noteq> CHR ''-'') core
      in (splitOn (CHR ''.'') nums,
          if afterNums = [] then None else Some (tl afterNums),
          if afterCore = [] then None else Some (tl afterCore)))"

definition optOk :: "(string \<Rightarrow> bool) \<Rightarrow> string option \<Rightarrow> bool" where
  "optOk ok x = (case x of None \<Rightarrow> True | Some t \<Rightarrow> ok t)"

definition matchesGrammar :: "(string \<Rightarrow> bool) \<Rightarrow> (string \<Rightarrow> bool) \<Rightarrow> string \<Rightarrow> bool" where
  "matchesGrammar number ident s =
     (case versionParts s of
        (comps, pre, bld) \<Rightarrow>
          length comps \<le> 3 \<and> list_all number comps \<and> optOk ident pre \<and> optOk ident bld)"

text \<open>
  \<^verbatim>\<open>MAJOR\<close>, \<^verbatim>\<open>MINOR\<close>, \<^verbatim>\<open>PATCH\<close>: one or more ASCII digits. \<^verbatim>\<open>PRERELEASE\<close> as the
  specification words it: one or more dot-separated segments of \<^verbatim>\<open>[0-9A-Za-z-]+\<close>
  (and \<^verbatim>\<open>BUILD\<close> the same).
\<close>

definition isNumber :: "string \<Rightarrow> bool" where
  "isNumber ds = (ds \<noteq> [] \<and> list_all isDigit ds)"

definition isSegmentChar :: "char \<Rightarrow> bool" where
  "isSegmentChar c =
     (isDigit c \<or> (CHR ''A'' \<le> c \<and> c \<le> CHR ''Z'') \<or> (CHR ''a'' \<le> c \<and> c \<le> CHR ''z'')
      \<or> c = CHR ''-'')"

definition isDotSegments :: "string \<Rightarrow> bool" where
  "isDotSegments p =
     list_all (\<lambda>seg. seg \<noteq> [] \<and> list_all isSegmentChar seg) (splitOn (CHR ''.'') p)"

text \<open>
  What the code accepts in their place: a number whose value fits \<^verbatim>\<open>int\<close>, and for
  the prerelease and the build any non-empty run of the class \<^verbatim>\<open>[0-9A-Za-z\-\.]\<close>.
\<close>

definition fitsInt :: "string \<Rightarrow> bool" where
  "fitsInt ds = (isNumber ds \<and> decValue ds \<le> maxInt)"

definition isIdentRun :: "string \<Rightarrow> bool" where
  "isIdentRun p = (p \<noteq> [] \<and> list_all isIdentChar p)"

text \<open>The version a string of the grammar denotes: absent components are 0.\<close>

definition optText :: "string option \<Rightarrow> string" where
  "optText x = (case x of None \<Rightarrow> [] | Some t \<Rightarrow> t)"

definition versionOf :: "string list \<times> string option \<times> string option \<Rightarrow> Version" where
  "versionOf parts =
     (case parts of
        (comps, pre, bld) \<Rightarrow>
          \<lparr>Major = decValue (comps ! 0),
           Minor = (if 1 < length comps then decValue (comps ! 1) else 0),
           Patch = (if 2 < length comps then decValue (comps ! 2) else 0),
           Prerelease = optText pre,
           Build = optText bld\<rparr>)"

subsection \<open>A version string from its parts\<close>

text \<open>
  Used in the proofs: a version string put together from its major and its optional
  minor, patch, prerelease and build, and the captures the pattern yields on it.
\<close>

definition optPart :: "char \<Rightarrow> string option \<Rightarrow> string" where
  "optPart sep x = (case x of None \<Rightarrow> [] | Some t \<Rightarrow> sep # t)"

definition setGroup :: "nat \<Rightarrow> string option \<Rightarrow> captures \<Rightarrow> captures" where
  "setGroup i x c = (case x of None \<Rightarrow> c | Some t \<Rightarrow> c(i := t))"

definition optList :: "string option \<Rightarrow> string list" where
  "optList x = (case x of None \<Rightarrow> [] | Some t \<Rightarrow> [t])"

definition optVal :: "string option \<Rightarrow> int" where
  "optVal x = (case x of None \<Rightarrow> 0 | Some t \<Rightarrow> decValue t)"

definition render ::
  "string \<Rightarrow> string option \<Rightarrow> string option \<Rightarrow> string option \<Rightarrow> string option \<Rightarrow> string" where
  "render maj mn pt pre bld =
     maj @ optPart (CHR ''.'') mn @ optPart (CHR ''.'') pt @ optPart (CHR ''-'') pre
       @ optPart (CHR ''+'') bld"

definition capsOf ::
  "string \<Rightarrow> string option \<Rightarrow> string option \<Rightarrow> string option \<Rightarrow> string option \<Rightarrow> captures" where
  "capsOf maj mn pt pre bld =
     setGroup 5 bld (setGroup 4 pre (setGroup 3 pt (setGroup 2 mn ((\<lambda>_. [])(1 := maj)))))"

definition validParts ::
  "string \<Rightarrow> string option \<Rightarrow> string option \<Rightarrow> string option \<Rightarrow> string option \<Rightarrow> bool" where
  "validParts maj mn pt pre bld =
     (isNumber maj \<and> optOk isNumber mn \<and> optOk isNumber pt \<and> (pt = None \<or> mn \<noteq> None)
      \<and> optOk isIdentRun pre \<and> optOk isIdentRun bld)"

definition startsIn :: "string \<Rightarrow> string \<Rightarrow> bool" where
  "startsIn seps r = (r = [] \<or> hd r \<in> set seps)"

section \<open>Properties\<close>

lemmas Op_defs =
  OpEqual_def OpGreater_def OpGreaterEqual_def OpLess_def OpLessEqual_def
  OpTilde_def OpCaret_def OpNotEqual_def

lemma spaceWidth_le: "spaceWidth s \<le> length s"
  by (auto simp: spaceWidth_def split: list.splits)

subsection \<open>Comparison\<close>

lemma bytesLess_iff: "bytesLess xs ys \<longleftrightarrow> xs < ys"
  by (induction xs ys rule: bytesLess.induct) (auto simp: less_char_def)

lemma comparePrerelease_neg: "comparePrerelease p q = - comparePrerelease q p"
  by (auto simp: comparePrerelease_def)

lemma comparePrerelease_range: "comparePrerelease p q \<in> {- 1, 0, 1}"
  by (auto simp: comparePrerelease_def)

lemma comparePrerelease_le_iff:
  "comparePrerelease p q \<le> 0 \<longleftrightarrow> (p = q \<or> (p \<noteq> [] \<and> (q = [] \<or> p < q)))"
  by (auto simp: comparePrerelease_def)

lemma comparePrerelease_trans:
  "comparePrerelease p q \<le> 0 \<Longrightarrow> comparePrerelease q r \<le> 0 \<Longrightarrow> comparePrerelease p r \<le> 0"
  unfolding comparePrerelease_le_iff by auto

text \<open>
  C1. \<open>Compare a b\<close> is decided by the first of major, minor and patch that differs,
  compared as numbers. When all three agree: two absent prereleases are equal, a side
  without a prerelease is greater than a side with one, and two prereleases are compared
  as byte strings in lexicographic order.
\<close>

theorem Compare_fields_then_prerelease:
  "(Major a \<noteq> Major b \<longrightarrow> Compare a b = (if Major a < Major b then - 1 else 1)) \<and>
   (Major a = Major b \<and> Minor a \<noteq> Minor b \<longrightarrow>
      Compare a b = (if Minor a < Minor b then - 1 else 1)) \<and>
   (Major a = Major b \<and> Minor a = Minor b \<and> Patch a \<noteq> Patch b \<longrightarrow>
      Compare a b = (if Patch a < Patch b then - 1 else 1)) \<and>
   (Major a = Major b \<and> Minor a = Minor b \<and> Patch a = Patch b \<longrightarrow>
      (Prerelease a = [] \<and> Prerelease b = [] \<longrightarrow> Compare a b = 0) \<and>
      (Prerelease a = [] \<and> Prerelease b \<noteq> [] \<longrightarrow> Compare a b = 1) \<and>
      (Prerelease a \<noteq> [] \<and> Prerelease b = [] \<longrightarrow> Compare a b = - 1) \<and>
      (Prerelease a \<noteq> [] \<and> Prerelease b \<noteq> [] \<longrightarrow>
         Compare a b =
           (if bytesLess (Prerelease a) (Prerelease b) then - 1
            else if bytesLess (Prerelease b) (Prerelease a) then 1
            else 0)))"
  by (simp add: Compare_def comparePrerelease_def bytesLess_iff)

theorem Compare_fields_then_prerelease_witness:
  "Compare \<lparr>Major = 1, Minor = 2, Patch = 3, Prerelease = ''alpha.10'', Build = []\<rparr>
           \<lparr>Major = 1, Minor = 2, Patch = 3, Prerelease = ''alpha.2'', Build = ''b1''\<rparr> = - 1
   \<and> Compare \<lparr>Major = 1, Minor = 2, Patch = 3, Prerelease = [], Build = []\<rparr>
           \<lparr>Major = 1, Minor = 2, Patch = 3, Prerelease = ''alpha'', Build = []\<rparr> = 1
   \<and> Compare \<lparr>Major = 1, Minor = 10, Patch = 0, Prerelease = [], Build = []\<rparr>
           \<lparr>Major = 1, Minor = 9, Patch = 7, Prerelease = [], Build = []\<rparr> = 1"
  using
    Compare_fields_then_prerelease
      [of "\<lparr>Major = 1, Minor = 2, Patch = 3, Prerelease = ''alpha.10'', Build = []\<rparr>"
          "\<lparr>Major = 1, Minor = 2, Patch = 3, Prerelease = ''alpha.2'', Build = ''b1''\<rparr>"]
    Compare_fields_then_prerelease
      [of "\<lparr>Major = 1, Minor = 2, Patch = 3, Prerelease = [], Build = []\<rparr>"
          "\<lparr>Major = 1, Minor = 2, Patch = 3, Prerelease = ''alpha'', Build = []\<rparr>"]
    Compare_fields_then_prerelease
      [of "\<lparr>Major = 1, Minor = 10, Patch = 0, Prerelease = [], Build = []\<rparr>"
          "\<lparr>Major = 1, Minor = 9, Patch = 7, Prerelease = [], Build = []\<rparr>"]
  by simp

lemma Compare_le_iff:
  "Compare a b \<le> 0 \<longleftrightarrow>
     Major a < Major b \<or> (Major a = Major b \<and>
       (Minor a < Minor b \<or> (Minor a = Minor b \<and>
         (Patch a < Patch b \<or> (Patch a = Patch b \<and>
            comparePrerelease (Prerelease a) (Prerelease b) \<le> 0)))))"
  by (simp add: Compare_def)

text \<open>
  C4. \<open>Compare\<close> is antisymmetric (\<open>Compare a b = - Compare b a\<close>), transitive, and
  returns \<open>-1\<close>, \<open>0\<close> or \<open>1\<close>.
\<close>

theorem Compare_total_order:
  "Compare a b = - Compare b a
   \<and> (Compare a b \<le> 0 \<and> Compare b c \<le> 0 \<longrightarrow> Compare a c \<le> 0)
   \<and> Compare a b \<in> {- 1, 0, 1}"
proof (intro conjI impI)
  show "Compare a b = - Compare b a"
    using comparePrerelease_neg [of "Prerelease a" "Prerelease b"]
    by (simp add: Compare_def)
  show "Compare a b \<in> {- 1, 0, 1}"
    using comparePrerelease_range [of "Prerelease a" "Prerelease b"]
    by (simp add: Compare_def)
  assume h: "Compare a b \<le> 0 \<and> Compare b c \<le> 0"
  show "Compare a c \<le> 0"
    using h comparePrerelease_trans [of "Prerelease a" "Prerelease b" "Prerelease c"]
    unfolding Compare_le_iff by linarith
qed

theorem Compare_total_order_witness:
  "Compare \<lparr>Major = 1, Minor = 2, Patch = 3, Prerelease = ''alpha'', Build = []\<rparr>
           \<lparr>Major = 1, Minor = 2, Patch = 3, Prerelease = [], Build = []\<rparr> \<le> 0
   \<and> Compare \<lparr>Major = 1, Minor = 2, Patch = 3, Prerelease = [], Build = []\<rparr>
           \<lparr>Major = 1, Minor = 3, Patch = 0, Prerelease = ''rc1'', Build = []\<rparr> \<le> 0
   \<and> Compare \<lparr>Major = 1, Minor = 2, Patch = 3, Prerelease = ''alpha'', Build = []\<rparr>
           \<lparr>Major = 1, Minor = 3, Patch = 0, Prerelease = ''rc1'', Build = []\<rparr> \<le> 0"
proof -
  let ?a = "\<lparr>Major = 1, Minor = 2, Patch = 3, Prerelease = ''alpha'', Build = []\<rparr>"
  let ?b = "\<lparr>Major = 1, Minor = 2, Patch = 3, Prerelease = [], Build = []\<rparr>"
  let ?c = "\<lparr>Major = 1, Minor = 3, Patch = 0, Prerelease = ''rc1'', Build = []\<rparr>"
  have ab: "Compare ?a ?b \<le> 0" by (simp add: Compare_def comparePrerelease_def)
  have bc: "Compare ?b ?c \<le> 0" by (simp add: Compare_def comparePrerelease_def)
  from ab bc Compare_total_order [of ?a ?b ?c] show ?thesis by blast
qed

subsection \<open>Satisfaction\<close>

text \<open>
  C2, as amended. A caret constraint with bound \<open>b\<close> is satisfied by \<open>v\<close> exactly when
  the majors are equal and: for \<open>b\<close> with major 0, the minors are equal and the patch of
  \<open>v\<close> is equal to that of \<open>b\<close> (minor of \<open>b\<close> is 0) or at least that of \<open>b\<close> (otherwise);
  for any other major, the minor of \<open>v\<close> is greater, or equal with a patch at least that
  of \<open>b\<close>.
\<close>

theorem caret_rule:
  "Operator c = OpCaret \<Longrightarrow>
   IsSatisfiedBy c v =
     (Major v = Major (Version c) \<and>
      (if Major (Version c) = 0
       then Minor v = Minor (Version c) \<and>
            (if Minor (Version c) = 0 then Patch v = Patch (Version c)
             else Patch v \<ge> Patch (Version c))
       else Minor v > Minor (Version c) \<or>
            (Minor v = Minor (Version c) \<and> Patch v \<ge> Patch (Version c))))"
  by (auto simp: IsSatisfiedBy_def caretConstraint_def Op_defs Let_def)

theorem caret_rule_witness:
  "IsSatisfiedBy \<lparr>Operator = OpCaret, Version = \<lparr>Major = 0, Minor = 0, Patch = 3, Prerelease = [], Build = []\<rparr>\<rparr>
      \<lparr>Major = 0, Minor = 0, Patch = 3, Prerelease = [], Build = []\<rparr>
   \<and> \<not> IsSatisfiedBy \<lparr>Operator = OpCaret, Version = \<lparr>Major = 0, Minor = 0, Patch = 3, Prerelease = [], Build = []\<rparr>\<rparr>
      \<lparr>Major = 0, Minor = 0, Patch = 4, Prerelease = [], Build = []\<rparr>
   \<and> IsSatisfiedBy \<lparr>Operator = OpCaret, Version = \<lparr>Major = 1, Minor = 2, Patch = 3, Prerelease = [], Build = []\<rparr>\<rparr>
      \<lparr>Major = 1, Minor = 3, Patch = 0, Prerelease = [], Build = []\<rparr>"
  using
    caret_rule [of "\<lparr>Operator = OpCaret, Version = \<lparr>Major = 0, Minor = 0, Patch = 3, Prerelease = [], Build = []\<rparr>\<rparr>"
                   "\<lparr>Major = 0, Minor = 0, Patch = 3, Prerelease = [], Build = []\<rparr>"]
    caret_rule [of "\<lparr>Operator = OpCaret, Version = \<lparr>Major = 0, Minor = 0, Patch = 3, Prerelease = [], Build = []\<rparr>\<rparr>"
                   "\<lparr>Major = 0, Minor = 0, Patch = 4, Prerelease = [], Build = []\<rparr>"]
    caret_rule [of "\<lparr>Operator = OpCaret, Version = \<lparr>Major = 1, Minor = 2, Patch = 3, Prerelease = [], Build = []\<rparr>\<rparr>"
                   "\<lparr>Major = 1, Minor = 3, Patch = 0, Prerelease = [], Build = []\<rparr>"]
  by simp

text \<open>
  The rule as the specification states it accepts \<open>0.1.3\<close> for \<open>^0.0.3\<close> (same major, bound minor 0, equal
  patch); the code rejects it, since the minors differ.
\<close>

theorem caret_specified_rule_counterexample:
  "caretAsSpecified \<lparr>Major = 0, Minor = 0, Patch = 3, Prerelease = [], Build = []\<rparr>
                  \<lparr>Major = 0, Minor = 1, Patch = 3, Prerelease = [], Build = []\<rparr>
   \<and> \<not> IsSatisfiedBy
        \<lparr>Operator = OpCaret, Version = \<lparr>Major = 0, Minor = 0, Patch = 3, Prerelease = [], Build = []\<rparr>\<rparr>
        \<lparr>Major = 0, Minor = 1, Patch = 3, Prerelease = [], Build = []\<rparr>"
  by (simp add: caretAsSpecified_def IsSatisfiedBy_def caretConstraint_def Op_defs)

lemma Compare_Build:
  "Compare (a\<lparr>Build := x\<rparr>) b = Compare a b"
  "Compare a (b\<lparr>Build := y\<rparr>) = Compare a b"
  by (simp_all add: Compare_def)

lemma tildeConstraint_Build:
  "tildeConstraint (c\<lparr>Version := (Version c)\<lparr>Build := x\<rparr>\<rparr>) v = tildeConstraint c v"
  "tildeConstraint c (v\<lparr>Build := y\<rparr>) = tildeConstraint c v"
  by (simp_all add: tildeConstraint_def)

lemma caretConstraint_Build:
  "caretConstraint (c\<lparr>Version := (Version c)\<lparr>Build := x\<rparr>\<rparr>) v = caretConstraint c v"
  "caretConstraint c (v\<lparr>Build := y\<rparr>) = caretConstraint c v"
  by (simp_all add: caretConstraint_def)

lemma IsSatisfiedBy_Build:
  "IsSatisfiedBy (c\<lparr>Version := (Version c)\<lparr>Build := x\<rparr>\<rparr>) v = IsSatisfiedBy c v"
  "IsSatisfiedBy c (v\<lparr>Build := y\<rparr>) = IsSatisfiedBy c v"
  by (simp_all add: IsSatisfiedBy_def Compare_Build tildeConstraint_Build caretConstraint_Build)

text \<open>
  C8. The build metadata of either version never changes the result of \<open>Compare\<close>, and
  neither the build of the candidate nor that of the constraint's bound changes the
  result of \<open>IsSatisfiedBy\<close>, whatever the operator.
\<close>

theorem build_noninterference:
  "Compare (a\<lparr>Build := x\<rparr>) (b\<lparr>Build := y\<rparr>) = Compare a b
   \<and> IsSatisfiedBy c (v\<lparr>Build := y\<rparr>) = IsSatisfiedBy c v
   \<and> IsSatisfiedBy (c\<lparr>Version := (Version c)\<lparr>Build := x\<rparr>\<rparr>) v = IsSatisfiedBy c v
   \<and> IsSatisfiedBy (c\<lparr>Version := (Version c)\<lparr>Build := x\<rparr>\<rparr>) (v\<lparr>Build := y\<rparr>) = IsSatisfiedBy c v"
  by (simp only: Compare_Build IsSatisfiedBy_Build)

text \<open>
  C3. A tilde constraint with bound \<open>b\<close> is satisfied by \<open>v\<close> exactly when major and
  minor are equal and the patch of \<open>v\<close> is at least that of \<open>b\<close>. The constraint
  \<^verbatim>\<open>~1\<close> parses to the bound \<open>1.0.0\<close>, as \<^verbatim>\<open>~1.0.0\<close> does, and is satisfied only by
  versions whose minor is 0.
\<close>

theorem tilde_rule:
  "(Operator c = OpTilde \<longrightarrow>
      IsSatisfiedBy c v =
        (Major v = Major (Version c) \<and> Minor v = Minor (Version c) \<and> Patch v \<ge> Patch (Version c)))
   \<and> ParseConstraint ''~1'' =
        Inr \<lparr>Operator = OpTilde,
             Version = \<lparr>Major = 1, Minor = 0, Patch = 0, Prerelease = [], Build = []\<rparr>\<rparr>
   \<and> ParseConstraint ''~1.0.0'' = ParseConstraint ''~1''
   \<and> (IsSatisfiedBy \<lparr>Operator = OpTilde,
             Version = \<lparr>Major = 1, Minor = 0, Patch = 0, Prerelease = [], Build = []\<rparr>\<rparr> v
        \<longrightarrow> Minor v = 0)"
proof (intro conjI impI)
  assume "Operator c = OpTilde"
  then show "IsSatisfiedBy c v =
        (Major v = Major (Version c) \<and> Minor v = Minor (Version c) \<and> Patch v \<ge> Patch (Version c))"
    by (auto simp: IsSatisfiedBy_def tildeConstraint_def Op_defs)
next
  show "ParseConstraint ''~1'' =
        Inr \<lparr>Operator = OpTilde,
             Version = \<lparr>Major = 1, Minor = 0, Patch = 0, Prerelease = [], Build = []\<rparr>\<rparr>"
    by code_simp
next
  show "ParseConstraint ''~1.0.0'' = ParseConstraint ''~1''"
    by code_simp
next
  assume "IsSatisfiedBy \<lparr>Operator = OpTilde,
             Version = \<lparr>Major = 1, Minor = 0, Patch = 0, Prerelease = [], Build = []\<rparr>\<rparr> v"
  then show "Minor v = 0"
    by (simp add: IsSatisfiedBy_def tildeConstraint_def Op_defs split: if_splits)
qed

theorem tilde_rule_witness:
  "IsSatisfiedBy
     \<lparr>Operator = OpTilde, Version = \<lparr>Major = 1, Minor = 2, Patch = 3, Prerelease = [], Build = []\<rparr>\<rparr>
     \<lparr>Major = 1, Minor = 2, Patch = 4, Prerelease = [], Build = []\<rparr>
   \<and> \<not> IsSatisfiedBy
     \<lparr>Operator = OpTilde, Version = \<lparr>Major = 1, Minor = 0, Patch = 0, Prerelease = [], Build = []\<rparr>\<rparr>
     \<lparr>Major = 1, Minor = 1, Patch = 0, Prerelease = [], Build = []\<rparr>"
  using
    tilde_rule [of "\<lparr>Operator = OpTilde, Version = \<lparr>Major = 1, Minor = 2, Patch = 3, Prerelease = [], Build = []\<rparr>\<rparr>"
                   "\<lparr>Major = 1, Minor = 2, Patch = 4, Prerelease = [], Build = []\<rparr>"]
    tilde_rule [of "\<lparr>Operator = OpTilde, Version = \<lparr>Major = 1, Minor = 0, Patch = 0, Prerelease = [], Build = []\<rparr>\<rparr>"
                   "\<lparr>Major = 1, Minor = 1, Patch = 0, Prerelease = [], Build = []\<rparr>"]
  by auto

subsection \<open>The backtracking matcher on the version pattern\<close>

lemma tryLens_first:
  assumes "\<And>m. 0 < m \<Longrightarrow> m < n \<Longrightarrow> k (drop m s) = None"
  shows "tryLens n s k = (if n = 0 then None else k (drop n s))"
  using assms
proof (induction n)
  case 0
  show ?case by simp
next
  case (Suc n)
  have ih: "tryLens n s k = (if n = 0 then None else k (drop n s))"
    using Suc.IH Suc.prems by simp
  show ?case
  proof (cases "k (drop (Suc n) s)")
    case None
    have "tryLens n s k = None"
      using ih Suc.prems [of n] by (cases "n = 0") simp_all
    with None show ?thesis by simp
  next
    case (Some r)
    then show ?thesis by simp
  qed
qed

lemma drop_inside_takeWhile:
  assumes "m < length (takeWhile p s)"
  shows "\<exists>x xs. drop m s = x # xs \<and> p x"
proof -
  have len: "m < length s"
    using assms length_takeWhile_le [of p s] by (rule less_le_trans)
  have "takeWhile p s ! m \<in> set (takeWhile p s)"
    using assms by simp
  then have "p (takeWhile p s ! m)"
    by (rule set_takeWhileD [THEN conjunct2])
  then have "p (s ! m)"
    using assms by (simp add: takeWhile_nth)
  moreover have "drop m s = s ! m # drop (Suc m) s"
    using len by (simp add: Cons_nth_drop_Suc)
  ultimately show ?thesis by blast
qed

lemma backtrack_Plus1:
  assumes "\<And>x xs. p x \<Longrightarrow> k (x # xs) c = None"
  shows "backtrack (Plus1 p) s c k =
           (if takeWhile p s = [] then None else k (dropWhile p s) c)"
proof -
  have "tryLens (length (takeWhile p s)) s (\<lambda>rest. k rest c) =
          (if length (takeWhile p s) = 0 then None
           else k (drop (length (takeWhile p s)) s) c)"
  proof (rule tryLens_first)
    fix m assume "0 < m" "m < length (takeWhile p s)"
    then obtain x xs where "drop m s = x # xs" "p x"
      using drop_inside_takeWhile by blast
    then show "k (drop m s) c = None" using assms by simp
  qed
  then show ?thesis by (simp add: dropWhile_eq_drop)
qed

lemma take_length_diff_dropWhile:
  "take (length s - length (dropWhile p s)) s = takeWhile p s"
proof -
  have "length (takeWhile p s) + length (dropWhile p s) = length s"
    using arg_cong [OF takeWhile_dropWhile_id [of p s], of length]
    by (simp only: length_append)
  then have e: "length s - length (dropWhile p s) = length (takeWhile p s)" by arith
  show ?thesis unfolding e by (rule takeWhile_eq_take [symmetric])
qed

lemma backtrack_Group_Plus1:
  assumes "\<And>x xs c'. p x \<Longrightarrow> k (x # xs) c' = None"
  shows "backtrack (Group i (Plus1 p)) s c k =
           (if takeWhile p s = [] then None
            else k (dropWhile p s) (c(i := takeWhile p s)))"
proof -
  let ?k = "\<lambda>rest c'. k rest (c'(i := take (length s - length rest) s))"
  have "backtrack (Plus1 p) s c ?k =
          (if takeWhile p s = [] then None else ?k (dropWhile p s) c)"
    by (rule backtrack_Plus1) (simp add: assms)
  then show ?thesis
    by (simp add: take_length_diff_dropWhile)
qed

lemma backtrack_Opt_sep_Group:
  assumes a: "\<And>x xs c'. p x \<Longrightarrow> k (x # xs) c' = None"
    and b: "\<And>t. (if takeWhile p t = [] then None
                  else k (dropWhile p t) (c(i := takeWhile p t))) = None
            \<Longrightarrow> k (d # t) c = None"
  shows "backtrack (Opt (Seq (Str [d]) (Group i (Plus1 p)))) s c k =
           (case s of
              [] \<Rightarrow> k [] c
            | x # t \<Rightarrow>
                if x = d
                then (if takeWhile p t = [] then None
                      else k (dropWhile p t) (c(i := takeWhile p t)))
                else k s c)"
proof (cases s)
  case Nil
  then show ?thesis by simp
next
  case (Cons x t)
  show ?thesis
  proof (cases "x = d")
    case False
    with Cons show ?thesis by simp
  next
    case True
    let ?inner = "if takeWhile p t = [] then None
                  else k (dropWhile p t) (c(i := takeWhile p t))"
    have g: "backtrack (Group i (Plus1 p)) t c k = ?inner"
      by (rule backtrack_Group_Plus1) (rule a)
    show ?thesis
    proof (cases ?inner)
      case None
      then have "k (d # t) c = None" by (rule b)
      with None g Cons True show ?thesis by simp
    next
      case (Some m)
      with g Cons True show ?thesis by simp
    qed
  qed
qed

lemma isDigit_not_sep:
  "isDigit x \<Longrightarrow> x \<noteq> CHR ''.'' \<and> x \<noteq> CHR ''-'' \<and> x \<noteq> CHR ''+'' \<and> x \<noteq> CHR ''v''"
  by (auto simp: isDigit_def)

lemma isIdentChar_not_plus: "isIdentChar x \<Longrightarrow> x \<noteq> CHR ''+''"
  by (auto simp: isIdentChar_def isDigit_def)

lemma tailBuild_eq:
  "tailBuild s c =
     (case s of
        [] \<Rightarrow> Some c
      | x # t \<Rightarrow>
          if x = CHR ''+''
          then (if takeWhile isIdentChar t = [] then None
                else atEnd (dropWhile isIdentChar t) (c(5 := takeWhile isIdentChar t)))
          else None)"
proof -
  have "tailBuild s c =
     (case s of
        [] \<Rightarrow> atEnd [] c
      | x # t \<Rightarrow>
          if x = CHR ''+''
          then (if takeWhile isIdentChar t = [] then None
                else atEnd (dropWhile isIdentChar t) (c(5 := takeWhile isIdentChar t)))
          else atEnd s c)"
    unfolding tailBuild_def
    by (rule backtrack_Opt_sep_Group) (simp_all add: atEnd_def)
  then show ?thesis by (simp add: atEnd_def split: list.splits)
qed

lemma tailBuild_None_indep: "tailBuild s c = None \<longleftrightarrow> tailBuild s c' = None"
  by (simp add: tailBuild_eq atEnd_def split: list.splits)

lemma tailPre_eq:
  "tailPre s c =
     (case s of
        [] \<Rightarrow> tailBuild [] c
      | x # t \<Rightarrow>
          if x = CHR ''-''
          then (if takeWhile isIdentChar t = [] then None
                else tailBuild (dropWhile isIdentChar t) (c(4 := takeWhile isIdentChar t)))
          else tailBuild s c)"
  unfolding tailPre_def
proof (rule backtrack_Opt_sep_Group)
  fix x xs c' assume "isIdentChar x"
  then show "tailBuild (x # xs) c' = None"
    by (simp add: tailBuild_eq isIdentChar_not_plus)
next
  fix t show "tailBuild (CHR ''-'' # t) c = None"
    by (simp add: tailBuild_eq)
qed

lemma tailPre_None_indep: "tailPre s c = None \<longleftrightarrow> tailPre s c' = None"
proof (cases s)
  case Nil
  then show ?thesis by (simp add: tailPre_eq tailBuild_eq)
next
  case (Cons x t)
  show ?thesis
    using tailBuild_None_indep [of "dropWhile isIdentChar t" "c(4 := takeWhile isIdentChar t)"
        "c'(4 := takeWhile isIdentChar t)"]
      tailBuild_None_indep [of s c c']
    by (simp add: tailPre_eq Cons)
qed

lemma tailPre_digit: "isDigit x \<Longrightarrow> tailPre (x # xs) c = None"
  using isDigit_not_sep [of x] by (simp add: tailPre_eq tailBuild_eq)

lemma tailPatch_eq:
  "tailPatch s c =
     (case s of
        [] \<Rightarrow> tailPre [] c
      | x # t \<Rightarrow>
          if x = CHR ''.''
          then (if takeWhile isDigit t = [] then None
                else tailPre (dropWhile isDigit t) (c(3 := takeWhile isDigit t)))
          else tailPre s c)"
  unfolding tailPatch_def
proof (rule backtrack_Opt_sep_Group)
  fix x xs c' assume "isDigit x"
  then show "tailPre (x # xs) c' = None" by (rule tailPre_digit)
next
  fix t show "tailPre (CHR ''.'' # t) c = None"
    by (simp add: tailPre_eq tailBuild_eq)
qed

lemma tailPatch_digit: "isDigit x \<Longrightarrow> tailPatch (x # xs) c = None"
  using isDigit_not_sep [of x] by (simp add: tailPatch_eq tailPre_digit)

lemma dropWhile_head: "dropWhile p t = x # xs \<Longrightarrow> \<not> p x"
  by (metis hd_dropWhile list.sel(1) list.distinct(1))

lemma tailMinor_eq:
  "tailMinor s c =
     (case s of
        [] \<Rightarrow> tailPatch [] c
      | x # t \<Rightarrow>
          if x = CHR ''.''
          then (if takeWhile isDigit t = [] then None
                else tailPatch (dropWhile isDigit t) (c(2 := takeWhile isDigit t)))
          else tailPatch s c)"
  unfolding tailMinor_def
proof (rule backtrack_Opt_sep_Group)
  fix x xs c' assume "isDigit x"
  then show "tailPatch (x # xs) c' = None" by (rule tailPatch_digit)
next
  fix t
  let ?tw = "takeWhile isDigit t" and ?dw = "dropWhile isDigit t"
  assume inner: "(if ?tw = [] then None else tailPatch ?dw (c(2 := ?tw))) = None"
  show "tailPatch (CHR ''.'' # t) c = None"
  proof (cases "?tw = []")
    case True
    then show ?thesis by (simp add: tailPatch_eq)
  next
    case False
    with inner have n: "tailPatch ?dw (c(2 := ?tw)) = None" by simp
    have "tailPre ?dw (c(3 := ?tw)) = None"
    proof (cases ?dw)
      case Nil
      with n show ?thesis by (simp add: tailPatch_eq tailPre_eq tailBuild_eq)
    next
      case (Cons y ys)
      show ?thesis
      proof (cases "y = CHR ''.''")
        case True
        with Cons show ?thesis by (simp add: tailPre_eq tailBuild_eq)
      next
        case False
        with n Cons have "tailPre ?dw (c(2 := ?tw)) = None"
          by (simp add: tailPatch_eq)
        then show ?thesis using tailPre_None_indep by blast
      qed
    qed
    with False show ?thesis by (simp add: tailPatch_eq)
  qed
qed

lemma tailMinor_digit: "isDigit x \<Longrightarrow> tailMinor (x # xs) c = None"
  using isDigit_not_sep [of x] by (simp add: tailMinor_eq tailPatch_digit)

lemma tailMajor_eq:
  "tailMajor s c =
     (if takeWhile isDigit s = [] then None
      else tailMinor (dropWhile isDigit s) (c(1 := takeWhile isDigit s)))"
  unfolding tailMajor_def
  by (rule backtrack_Group_Plus1) (rule tailMinor_digit)

lemma FindStringSubmatch_versionRegex:
  "FindStringSubmatch versionRegex s = tailMajor (stripV s) (\<lambda>_. [])"
proof -
  have b: "(\<lambda>rest c'. backtrack (Opt (Seq (Str ''+'') (Group 5 (Plus1 isIdentChar)))) rest c' atEnd)
      = tailBuild"
    by (intro ext) (simp only: tailBuild_def)
  have p: "(\<lambda>rest c'. backtrack (Opt (Seq (Str ''-'') (Group 4 (Plus1 isIdentChar)))) rest c' tailBuild)
      = tailPre"
    by (intro ext) (simp only: tailPre_def)
  have pa: "(\<lambda>rest c'. backtrack (Opt (Seq (Str ''.'') (Group 3 (Plus1 isDigit)))) rest c' tailPre)
      = tailPatch"
    by (intro ext) (simp only: tailPatch_def)
  have mi: "(\<lambda>rest c'. backtrack (Opt (Seq (Str ''.'') (Group 2 (Plus1 isDigit)))) rest c' tailPatch)
      = tailMinor"
    by (intro ext) (simp only: tailMinor_def)
  have ma: "(\<lambda>rest c'. backtrack (Group 1 (Plus1 isDigit)) rest c' tailMinor) = tailMajor"
    by (intro ext) (simp only: tailMajor_def)
  have "FindStringSubmatch versionRegex s = backtrack (Opt (Str ''v'')) s (\<lambda>_. []) tailMajor"
    unfolding FindStringSubmatch_def versionRegex_def backtrack.simps(4) b p pa mi ma ..
  also have "\<dots> = tailMajor (stripV s) (\<lambda>_. [])"
  proof (cases s)
    case Nil
    then show ?thesis by (simp add: stripV_def)
  next
    case (Cons x t)
    show ?thesis
    proof (cases "x = CHR ''v''")
      case True
      have "tailMajor (CHR ''v'' # t) (\<lambda>_. []) = None"
        by (simp add: tailMajor_eq isDigit_def)
      with Cons True show ?thesis
        by (simp add: stripV_def split: option.splits)
    next
      case False
      with Cons show ?thesis by (simp add: stripV_def)
    qed
  qed
  finally show ?thesis .
qed

subsection \<open>Lists of constraints\<close>

lemma fieldsFrom_onlySpace: "onlySpace s \<Longrightarrow> fieldsFrom [] s = []"
proof (induction s rule: onlySpace.induct)
  case (1 s)
  show ?case
  proof (cases "s = []")
    case True
    then show ?thesis by simp
  next
    case False
    have w: "spaceWidth s \<noteq> 0"
      using "1.prems" False by (subst (asm) onlySpace.simps) (simp split: if_splits)
    have rest: "onlySpace (drop (spaceWidth s) s)"
      using "1.prems" False w by (subst (asm) onlySpace.simps) simp
    have ih: "fieldsFrom [] (drop (spaceWidth s) s) = []"
      using "1.IH" False w rest by simp
    obtain b t where s: "s = b # t" using False by (cases s) auto
    show ?thesis using ih w unfolding s by simp
  qed
qed

lemma asciiSpace_onlySpace: "list_all asciiSpace s \<Longrightarrow> onlySpace s"
proof (induction s)
  case Nil
  show ?case by (simp add: onlySpace.simps)
next
  case (Cons a s)
  then have "spaceWidth (a # s) = 1" by (simp add: spaceWidth_def)
  with Cons show ?case by (simp add: onlySpace.simps [of "a # s"])
qed

text \<open>
  C10. For an input that is not empty and consists of white space only,
  \<open>ParseConstraints\<close> returns the empty list and no error, and \<open>SatisfiesAll\<close> of any
  version against that list is true.
\<close>

theorem whitespace_only_accepts_every_version:
  "s \<noteq> [] \<Longrightarrow> onlySpace s \<Longrightarrow>
     ParseConstraints s = Inr [] \<and> SatisfiesAll v [] \<and>
     (\<forall>cs. ParseConstraints s = Inr cs \<longrightarrow> SatisfiesAll v cs)"
  by (simp add: ParseConstraints_def Fields_def fieldsFrom_onlySpace)

theorem whitespace_only_accepts_every_version_witness:
  "ParseConstraints '' '' = Inr []
   \<and> ParseConstraints [CHR 0x09, CHR 0xC2, CHR 0xA0, CHR 0xE3, CHR 0x80, CHR 0x80] = Inr []
   \<and> SatisfiesAll \<lparr>Major = 0, Minor = 0, Patch = 1, Prerelease = ''x'', Build = []\<rparr> []"
proof -
  have a: "onlySpace '' ''"
    by (simp add: onlySpace.simps spaceWidth_def asciiSpace_def)
  have b: "onlySpace [CHR 0x09, CHR 0xC2, CHR 0xA0, CHR 0xE3, CHR 0x80, CHR 0x80]"
    by (simp add: onlySpace.simps spaceWidth_def asciiSpace_def)
  show ?thesis
    using whitespace_only_accepts_every_version [OF _ a]
      whitespace_only_accepts_every_version [OF _ b]
    by simp
qed

subsection \<open>Parsing a constraint\<close>

lemma constraintRegex_equals_prefix:
  "FindStringSubmatch constraintRegex (CHR ''='' # rest) =
     (if list_all isAnyChar rest then Some ((\<lambda>_. [])(2 := CHR ''='' # rest)) else None)"
proof -
  let ?s = "CHR ''='' # rest"
  have g: "backtrack (Group 2 (Plus1 isAnyChar)) ?s (\<lambda>_. []) atEnd =
      (if takeWhile isAnyChar ?s = [] then None
       else atEnd (dropWhile isAnyChar ?s) ((\<lambda>_. [])(2 := takeWhile isAnyChar ?s)))"
    by (rule backtrack_Group_Plus1) (simp add: atEnd_def)
  have any: "isAnyChar (CHR ''='')" by (simp add: isAnyChar_def)
  have "FindStringSubmatch constraintRegex ?s =
      backtrack (Group 2 (Plus1 isAnyChar)) ?s (\<lambda>_. []) atEnd"
    unfolding FindStringSubmatch_def constraintRegex_def
    by (simp del: backtrack.simps(2))
  also have "\<dots> = (if list_all isAnyChar rest then Some ((\<lambda>_. [])(2 := ?s)) else None)"
  proof (cases "list_all isAnyChar rest")
    case True
    then have tw: "takeWhile isAnyChar rest = rest" and dw: "dropWhile isAnyChar rest = []"
      by (simp_all add: list_all_iff)
    show ?thesis unfolding g by (simp add: atEnd_def tw dw any True)
  next
    case False
    then have "dropWhile isAnyChar rest \<noteq> []"
      by (simp add: list_all_iff)
    with False any show ?thesis unfolding g by (simp add: atEnd_def)
  qed
  finally show ?thesis .
qed

lemma ParseVersion_equals_prefix:
  "ParseVersion (CHR ''='' # rest) = Inl (ErrInvalidVersionFormat (CHR ''='' # rest))"
  by (simp add: ParseVersion_def FindStringSubmatch_versionRegex stripV_def tailMajor_eq
      isDigit_def)

text \<open>
  C6. The specification has a leading \<^verbatim>\<open>=\<close> read as an operator, so that \<^verbatim>\<open>=1.2.3\<close> is the
  equality constraint on \<open>1.2.3\<close>. The \<^verbatim>\<open>switch\<close> of \<open>ParseConstraint\<close> has that case
  (\<open>operatorOf ''=''\<close> is \<open>OpEqual\<close>), but the pattern's operator group has no \<^verbatim>\<open>=\<close>
  alternative: the group takes no part, the whole input goes to \<open>ParseVersion\<close>, and
  every input that starts with \<^verbatim>\<open>=\<close> is an error. Without the \<^verbatim>\<open>=\<close> the same
  version parses to the equality constraint. The other operators are recognised, the
  longer one first; a version that does not parse after an operator gives the version's
  error inside the constraint's, and the empty input is an error.
\<close>

theorem ParseConstraint_equals_prefix_rejected:
  "operatorOf ''='' = Some OpEqual
   \<and> ParseConstraint (CHR ''='' # rest) =
       Inl (if list_all isAnyChar rest
            then ErrInvalidVersionInConstraint (ErrInvalidVersionFormat (CHR ''='' # rest))
            else ErrInvalidConstraintFormat (CHR ''='' # rest))
   \<and> ParseConstraint ''=1.2.3'' =
       Inl (ErrInvalidVersionInConstraint (ErrInvalidVersionFormat ''=1.2.3''))
   \<and> ParseConstraint ''1.2.3'' =
       Inr \<lparr>Operator = OpEqual,
            Version = \<lparr>Major = 1, Minor = 2, Patch = 3, Prerelease = [], Build = []\<rparr>\<rparr>
   \<and> ParseConstraint ''>=1.2.3'' =
       Inr \<lparr>Operator = OpGreaterEqual,
            Version = \<lparr>Major = 1, Minor = 2, Patch = 3, Prerelease = [], Build = []\<rparr>\<rparr>
   \<and> ParseConstraint ''>=x'' =
       Inl (ErrInvalidVersionInConstraint (ErrInvalidVersionFormat ''x''))
   \<and> ParseConstraint [] = Inl ErrEmptyConstraint"
proof (intro conjI)
  show "operatorOf ''='' = Some OpEqual"
    by (simp add: operatorOf_def)
  show "ParseConstraint (CHR ''='' # rest) =
       Inl (if list_all isAnyChar rest
            then ErrInvalidVersionInConstraint (ErrInvalidVersionFormat (CHR ''='' # rest))
            else ErrInvalidConstraintFormat (CHR ''='' # rest))"
    by (simp add: ParseConstraint_def constraintRegex_equals_prefix operatorOf_def
        ParseVersion_equals_prefix)
  show "ParseConstraint ''=1.2.3'' =
       Inl (ErrInvalidVersionInConstraint (ErrInvalidVersionFormat ''=1.2.3''))"
    by code_simp
  show "ParseConstraint ''1.2.3'' =
       Inr \<lparr>Operator = OpEqual,
            Version = \<lparr>Major = 1, Minor = 2, Patch = 3, Prerelease = [], Build = []\<rparr>\<rparr>"
    by code_simp
  show "ParseConstraint ''>=1.2.3'' =
       Inr \<lparr>Operator = OpGreaterEqual,
            Version = \<lparr>Major = 1, Minor = 2, Patch = 3, Prerelease = [], Build = []\<rparr>\<rparr>"
    by code_simp
  show "ParseConstraint ''>=x'' =
       Inl (ErrInvalidVersionInConstraint (ErrInvalidVersionFormat ''x''))"
    by code_simp
  show "ParseConstraint [] = Inl ErrEmptyConstraint"
    by (simp add: ParseConstraint_def)
qed

subsection \<open>Splitting and parsing a list of constraints\<close>

lemma parseParts_all:
  "map ParseConstraint parts = map Inr cs \<Longrightarrow> parseParts parts = Inr cs"
proof (induction parts arbitrary: cs)
  case Nil
  then show ?case by simp
next
  case (Cons p ps)
  then obtain c cs' where cs: "cs = c # cs'" by (cases cs) auto
  with Cons.prems have "ParseConstraint p = Inr c" "map ParseConstraint ps = map Inr cs'"
    by simp_all
  with Cons.IH cs show ?case by simp
qed

lemma parseParts_first_error:
  "map ParseConstraint ts = map Inr cs \<Longrightarrow> ParseConstraint t = Inl e \<Longrightarrow>
     parseParts (ts @ t # us) = Inl (ErrFailedToParseConstraint t e)"
proof (induction ts arbitrary: cs)
  case Nil
  then show ?case by simp
next
  case (Cons p ps)
  then obtain c cs' where cs: "cs = c # cs'" by (cases cs) auto
  with Cons.prems have "ParseConstraint p = Inr c" "map ParseConstraint ps = map Inr cs'"
    by simp_all
  with Cons.IH Cons.prems(2) show ?case by simp
qed

lemma parseParts_success:
  "parseParts parts = Inr cs \<Longrightarrow> map ParseConstraint parts = map Inr cs"
proof (induction parts arbitrary: cs)
  case Nil
  then show ?case by simp
next
  case (Cons p ps)
  then show ?case by (auto split: sum.splits)
qed

lemma spaceWidth_plain: "plainByte b \<Longrightarrow> spaceWidth (b # t) = 0"
  by (simp add: spaceWidth_def plainByte_def)

lemma fieldsFrom_plain:
  "list_all plainByte t \<Longrightarrow> fieldsFrom cur (t @ rest) = fieldsFrom (cur @ t) rest"
proof (induction t arbitrary: cur)
  case Nil
  show ?case by simp
next
  case (Cons b t)
  then have "spaceWidth (b # t @ rest) = 0" by (simp add: spaceWidth_plain)
  with Cons show ?case by simp
qed

lemma spaceWidth_append: "0 < spaceWidth w \<Longrightarrow> spaceWidth (w @ rest) = spaceWidth w"
proof (cases w)
  case Nil
  assume "0 < spaceWidth w"
  with Nil show ?thesis by (simp add: spaceWidth_def)
next
  case b0: (Cons b0 t0)
  assume pos: "0 < spaceWidth w"
  show ?thesis
  proof (cases t0)
    case Nil
    have "asciiSpace b0"
      using pos unfolding b0 Nil by (simp add: spaceWidth_def split: if_splits)
    then show ?thesis unfolding b0 Nil by (simp add: spaceWidth_def)
  next
    case b1: (Cons b1 t1)
    show ?thesis
    proof (cases t1)
      case Nil
      have "asciiSpace b0 \<or> (b0 = CHR 0xC2 \<and> (b1 = CHR 0x85 \<or> b1 = CHR 0xA0))"
        using pos unfolding b0 b1 Nil by (simp add: spaceWidth_def split: if_splits)
      then show ?thesis unfolding b0 b1 Nil
        by (cases "asciiSpace b0") (simp_all add: spaceWidth_def)
    next
      case (Cons b2 t2)
      show ?thesis unfolding b0 b1 Cons by (simp add: spaceWidth_def)
    qed
  qed
qed

lemma fieldsFrom_at_space:
  "0 < spaceWidth s \<Longrightarrow>
     fieldsFrom cur s = (if cur = [] then [] else [cur]) @ fieldsFrom [] (drop (spaceWidth s) s)"
  by (cases s) (simp_all add: spaceWidth_def)

lemma fieldsFrom_space:
  "onlySpace w \<Longrightarrow> w \<noteq> [] \<Longrightarrow>
     fieldsFrom cur (w @ rest) = (if cur = [] then [] else [cur]) @ fieldsFrom [] rest"
proof (induction w arbitrary: cur rule: onlySpace.induct)
  case (1 w)
  let ?n = "spaceWidth w"
  have w: "?n \<noteq> 0"
    using "1.prems" by (subst (asm) onlySpace.simps) (simp split: if_splits)
  have rest: "onlySpace (drop ?n w)"
    using "1.prems" w by (subst (asm) onlySpace.simps) simp
  have n: "spaceWidth (w @ rest) = ?n" using w by (simp add: spaceWidth_append)
  have le: "?n \<le> length w" by (rule spaceWidth_le)
  have d: "drop ?n (w @ rest) = drop ?n w @ rest" using le by simp
  have "fieldsFrom cur (w @ rest) =
      (if cur = [] then [] else [cur]) @ fieldsFrom [] (drop (spaceWidth (w @ rest)) (w @ rest))"
    by (rule fieldsFrom_at_space) (use n w in simp)
  then have step: "fieldsFrom cur (w @ rest) =
      (if cur = [] then [] else [cur]) @ fieldsFrom [] (drop ?n w @ rest)"
    by (simp only: n d)
  show ?case
  proof (cases "drop ?n w = []")
    case True
    with step show ?thesis by simp
  next
    case False
    have "fieldsFrom [] (drop ?n w @ rest) = fieldsFrom [] rest"
      using "1.IH" [of "[]"] "1.prems"(2) w rest False by simp
    with step show ?thesis by simp
  qed
qed

lemma SatisfiesAll_iff: "SatisfiesAll v cs \<longleftrightarrow> list_all (\<lambda>c. IsSatisfiedBy c v) cs"
  by (induction cs) auto

text \<open>
  C9. \<open>ParseConstraints\<close> rejects the empty string. On any other input it parses the
  fields of \<open>Fields\<close> one by one: when every field parses, the result is the list of
  their constraints in order, and a list is returned in that case only; when a field
  fails after fields that parsed, the result is that field's error and no list.
  \<open>Fields\<close> drops a run of white space, and cuts a field of plain bytes at the run of
  white space that follows it. \<open>SatisfiesAll\<close> is true exactly when every constraint of
  the list is satisfied, and a reordering of the list does not change it.
\<close>

theorem ParseConstraints_all_or_nothing:
  "ParseConstraints [] = Inl ErrEmptyConstraint
   \<and> (s \<noteq> [] \<and> map ParseConstraint (Fields s) = map Inr cs \<longrightarrow> ParseConstraints s = Inr cs)
   \<and> (s \<noteq> [] \<and> Fields s = ts @ t # us \<and> map ParseConstraint ts = map Inr ds
        \<and> ParseConstraint t = Inl e
      \<longrightarrow> ParseConstraints s = Inl (ErrFailedToParseConstraint t e))
   \<and> (ParseConstraints s = Inr cs \<longrightarrow> map ParseConstraint (Fields s) = map Inr cs)
   \<and> (onlySpace w \<longrightarrow> Fields (w @ rest) = Fields rest)
   \<and> (tok \<noteq> [] \<and> list_all plainByte tok \<longrightarrow> Fields tok = [tok])
   \<and> (tok \<noteq> [] \<and> list_all plainByte tok \<and> w \<noteq> [] \<and> onlySpace w
      \<longrightarrow> Fields (tok @ w @ rest) = tok # Fields rest)
   \<and> SatisfiesAll v cs = list_all (\<lambda>c. IsSatisfiedBy c v) cs
   \<and> (mset cs = mset cs' \<longrightarrow> SatisfiesAll v cs = SatisfiesAll v cs')"
proof (intro conjI impI)
  show "ParseConstraints [] = Inl ErrEmptyConstraint"
    by (simp add: ParseConstraints_def)
next
  assume "s \<noteq> [] \<and> map ParseConstraint (Fields s) = map Inr cs"
  then show "ParseConstraints s = Inr cs"
    by (simp add: ParseConstraints_def parseParts_all)
next
  assume "s \<noteq> [] \<and> Fields s = ts @ t # us \<and> map ParseConstraint ts = map Inr ds
        \<and> ParseConstraint t = Inl e"
  then show "ParseConstraints s = Inl (ErrFailedToParseConstraint t e)"
    by (simp add: ParseConstraints_def parseParts_first_error)
next
  assume "ParseConstraints s = Inr cs"
  then show "map ParseConstraint (Fields s) = map Inr cs"
    by (simp add: ParseConstraints_def parseParts_success split: if_splits)
next
  assume "onlySpace w"
  then show "Fields (w @ rest) = Fields rest"
    using fieldsFrom_space [of w "[]" rest] by (cases "w = []") (simp_all add: Fields_def)
next
  assume "tok \<noteq> [] \<and> list_all plainByte tok"
  then show "Fields tok = [tok]"
    using fieldsFrom_plain [of tok "[]" "[]"] by (simp add: Fields_def)
next
  assume "tok \<noteq> [] \<and> list_all plainByte tok \<and> w \<noteq> [] \<and> onlySpace w"
  then show "Fields (tok @ w @ rest) = tok # Fields rest"
    using fieldsFrom_plain [of tok "[]" "w @ rest"] fieldsFrom_space [of w tok rest]
    by (simp add: Fields_def)
next
  show "SatisfiesAll v cs = list_all (\<lambda>c. IsSatisfiedBy c v) cs"
    by (rule SatisfiesAll_iff)
next
  assume "mset cs = mset cs'"
  then have "set cs = set cs'" by (rule mset_eq_setD)
  then show "SatisfiesAll v cs = SatisfiesAll v cs'"
    by (simp add: SatisfiesAll_iff list_all_iff)
qed


theorem ParseConstraints_all_or_nothing_witness:
  "ParseConstraints ''>=1.22  <1.25'' =
     Inr [\<lparr>Operator = OpGreaterEqual,
            Version = \<lparr>Major = 1, Minor = 22, Patch = 0, Prerelease = [], Build = []\<rparr>\<rparr>,
          \<lparr>Operator = OpLess,
            Version = \<lparr>Major = 1, Minor = 25, Patch = 0, Prerelease = [], Build = []\<rparr>\<rparr>]
   \<and> ParseConstraints ''>=1.22 x y'' =
     Inl (ErrFailedToParseConstraint ''x''
            (ErrInvalidVersionInConstraint (ErrInvalidVersionFormat ''x'')))
   \<and> SatisfiesAll \<lparr>Major = 1, Minor = 23, Patch = 0, Prerelease = [], Build = []\<rparr>
        [\<lparr>Operator = OpGreaterEqual,
            Version = \<lparr>Major = 1, Minor = 22, Patch = 0, Prerelease = [], Build = []\<rparr>\<rparr>,
         \<lparr>Operator = OpLess,
            Version = \<lparr>Major = 1, Minor = 25, Patch = 0, Prerelease = [], Build = []\<rparr>\<rparr>]
     = SatisfiesAll \<lparr>Major = 1, Minor = 23, Patch = 0, Prerelease = [], Build = []\<rparr>
        [\<lparr>Operator = OpLess,
            Version = \<lparr>Major = 1, Minor = 25, Patch = 0, Prerelease = [], Build = []\<rparr>\<rparr>,
         \<lparr>Operator = OpGreaterEqual,
            Version = \<lparr>Major = 1, Minor = 22, Patch = 0, Prerelease = [], Build = []\<rparr>\<rparr>]"
proof -
  let ?ge = "\<lparr>Operator = OpGreaterEqual,
            Version = \<lparr>Major = 1, Minor = 22, Patch = 0, Prerelease = [], Build = []\<rparr>\<rparr>"
  let ?lt = "\<lparr>Operator = OpLess,
            Version = \<lparr>Major = 1, Minor = 25, Patch = 0, Prerelease = [], Build = []\<rparr>\<rparr>"
  let ?e = "ErrInvalidVersionInConstraint (ErrInvalidVersionFormat ''x'')"
  have a: "''>=1.22  <1.25'' \<noteq> []
      \<and> map ParseConstraint (Fields ''>=1.22  <1.25'') = map Inr [?ge, ?lt]"
    by code_simp
  have b: "''>=1.22 x y'' \<noteq> [] \<and> Fields ''>=1.22 x y'' = [''>=1.22''] @ ''x'' # [''y'']
      \<and> map ParseConstraint [''>=1.22''] = map Inr [?ge] \<and> ParseConstraint ''x'' = Inl ?e"
    by code_simp
  have c: "mset [?ge, ?lt] = mset [?lt, ?ge]" by simp
  from a b c
    ParseConstraints_all_or_nothing [where s = "''>=1.22  <1.25''" and cs = "[?ge, ?lt]"
      and cs' = "[?lt, ?ge]"]
    ParseConstraints_all_or_nothing [where s = "''>=1.22 x y''" and ts = "[''>=1.22'']"
      and t = "''x''" and us = "[''y'']" and ds = "[?ge]" and e = ?e]
  show ?thesis by blast
qed

subsection \<open>Numbers as text\<close>

lemma isDigit_iff: "isDigit c \<longleftrightarrow> 48 \<le> (of_char c :: nat) \<and> (of_char c :: nat) \<le> 57"
  by (simp add: isDigit_def less_eq_char_def)

lemma digitVal_range: "isDigit c \<Longrightarrow> 0 \<le> digitVal c \<and> digitVal c < 10"
proof -
  assume "isDigit c"
  then have "48 \<le> (of_char c :: nat) \<and> (of_char c :: nat) \<le> 57" by (simp only: isDigit_iff)
  then have "48 \<le> int (of_char c) \<and> int (of_char c) \<le> 57" by linarith
  then have "48 \<le> (of_char c :: int) \<and> (of_char c :: int) \<le> 57"
    by (simp only: of_nat_of_char)
  then show ?thesis unfolding digitVal_def by linarith
qed

lemma decValue_snoc: "decValue (ds @ [c]) = 10 * decValue ds + digitVal c"
  by (simp add: decValue_def)

lemma decValue_nonneg: "list_all isDigit ds \<Longrightarrow> 0 \<le> decValue ds"
proof (induction ds rule: rev_induct)
  case Nil
  show ?case by (simp add: decValue_def)
next
  case (snoc c ds)
  then have "0 \<le> decValue ds" "0 \<le> digitVal c"
    using digitVal_range [of c] by simp_all
  then show ?case by (simp add: decValue_snoc)
qed

lemma digitChar_digit:
  assumes "0 \<le> d" "d < 10"
  shows "isDigit (digitChar d) \<and> digitVal (digitChar d) = d"
proof -
  from assms have "d = 0 \<or> d = 1 \<or> d = 2 \<or> d = 3 \<or> d = 4 \<or> d = 5 \<or> d = 6 \<or> d = 7 \<or> d = 8 \<or> d = 9"
    by arith
  then show ?thesis
    by (elim disjE; hypsubst; code_simp)
qed

lemma decimal_number:
  "0 \<le> n \<Longrightarrow> isNumber (decimal n) \<and> decValue (decimal n) = n"
proof (induction n rule: decimal.induct)
  case (1 n)
  show ?case
  proof (cases "n < 10")
    case True
    with "1.prems" digitChar_digit [of n] show ?thesis
      by (simp add: decimal.simps [of n] isNumber_def decValue_def)
  next
    case False
    with "1.prems" have "0 \<le> n div 10" by simp
    with "1.IH" False have ih: "isNumber (decimal (n div 10))" "decValue (decimal (n div 10)) = n div 10"
      by simp_all
    have d: "isDigit (digitChar (n mod 10))" "digitVal (digitChar (n mod 10)) = n mod 10"
      using digitChar_digit [of "n mod 10"] by simp_all
    from False ih d show ?thesis
      by (simp add: decimal.simps [of n] isNumber_def decValue_snoc)
  qed
qed

lemma Atoi_number:
  assumes "isNumber ds"
  shows "Atoi ds = (if decValue ds \<le> maxInt then Inr (decValue ds) else Inl ErrRange)"
proof -
  from assms obtain c cs where ds: "ds = c # cs" and c: "isDigit c" and all: "list_all isDigit ds"
    by (cases ds) (auto simp: isNumber_def)
  from c have sign: "c \<noteq> CHR ''+''" "c \<noteq> CHR ''-''"
    using isDigit_not_sep [of c] by simp_all
  have "0 \<le> decValue ds" using all by (rule decValue_nonneg)
  then have "\<not> decValue ds < minInt" by (simp add: minInt_def)
  with sign all show ?thesis
    unfolding Atoi_def ds by (simp add: Let_def)
qed

subsection \<open>What the version pattern matches\<close>

lemma takeWhile_stop:
  "list_all p a \<Longrightarrow> r = [] \<or> \<not> p (hd r) \<Longrightarrow>
     takeWhile p (a @ r) = a \<and> dropWhile p (a @ r) = r"
proof (induction a)
  case Nil
  then show ?case by (cases r) auto
next
  case (Cons x a)
  then show ?case by simp
qed

lemma layer_forward:
  assumes eq: "\<And>s c. K' s c =
      (case s of
         [] \<Rightarrow> K [] c
       | x # t \<Rightarrow>
           if x = d
           then (if takeWhile p t = [] then None
                 else K (dropWhile p t) (c(i := takeWhile p t)))
           else K s c)"
    and ok: "case opt of
               None \<Rightarrow> r = [] \<or> hd r \<noteq> d
             | Some x \<Rightarrow> x \<noteq> [] \<and> list_all p x \<and> (r = [] \<or> \<not> p (hd r))"
  shows "K' (optPart d opt @ r) c = K r (setGroup i opt c)"
proof (cases opt)
  case None
  with ok show ?thesis
    by (cases r) (auto simp: eq optPart_def setGroup_def)
next
  case (Some x)
  with ok have x: "x \<noteq> []" "list_all p x" "r = [] \<or> \<not> p (hd r)" by simp_all
  from takeWhile_stop [OF x(2,3)]
  have "takeWhile p (x @ r) = x" "dropWhile p (x @ r) = r" by simp_all
  with x(1) Some show ?thesis
    by (simp add: eq optPart_def setGroup_def)
qed

lemma layer_backward:
  assumes eq: "\<And>s c. K' s c =
      (case s of
         [] \<Rightarrow> K [] c
       | x # t \<Rightarrow>
           if x = d
           then (if takeWhile p t = [] then None
                 else K (dropWhile p t) (c(i := takeWhile p t)))
           else K s c)"
    and some: "K' s c = Some m"
  shows "\<exists>opt r. s = optPart d opt @ r \<and> K r (setGroup i opt c) = Some m
           \<and> optOk (\<lambda>x. x \<noteq> [] \<and> list_all p x) opt
           \<and> (opt = None \<longrightarrow> r = [] \<or> hd r \<noteq> d)"
proof (cases "s \<noteq> [] \<and> hd s = d")
  case False
  then have "K' s c = K s c" by (cases s) (simp_all add: eq)
  with some False have "s = optPart d None @ s \<and> K s (setGroup i None c) = Some m
      \<and> optOk (\<lambda>x. x \<noteq> [] \<and> list_all p x) None \<and> (s = [] \<or> hd s \<noteq> d)"
    by (auto simp: optPart_def setGroup_def optOk_def)
  then show ?thesis by blast
next
  case True
  then obtain t where s: "s = d # t" by (cases s) auto
  let ?tw = "takeWhile p t" and ?dw = "dropWhile p t"
  from some have tw: "?tw \<noteq> []" and k: "K ?dw (c(i := ?tw)) = Some m"
    unfolding s by (simp_all add: eq split: if_splits)
  have all: "list_all p ?tw"
    by (simp add: list_all_iff) (meson set_takeWhileD)
  have "s = optPart d (Some ?tw) @ ?dw"
    unfolding s by (simp add: optPart_def)
  moreover have "K ?dw (setGroup i (Some ?tw) c) = Some m"
    using k by (simp add: setGroup_def)
  moreover have "optOk (\<lambda>x. x \<noteq> [] \<and> list_all p x) (Some ?tw)"
    using tw all by (simp add: optOk_def)
  ultimately show ?thesis by blast
qed

lemma tailBuild_layer:
  "tailBuild s c =
     (case s of
        [] \<Rightarrow> atEnd [] c
      | x # t \<Rightarrow>
          if x = CHR ''+''
          then (if takeWhile isIdentChar t = [] then None
                else atEnd (dropWhile isIdentChar t) (c(5 := takeWhile isIdentChar t)))
          else atEnd s c)"
  by (simp add: tailBuild_eq atEnd_def split: list.splits)


lemma startsIn_Nil: "startsIn seps []"
  by (simp add: startsIn_def)

lemma startsIn_optPart:
  "d \<in> set seps' \<Longrightarrow> set seps \<subseteq> set seps' \<Longrightarrow> startsIn seps r \<Longrightarrow>
     startsIn seps' (optPart d x @ r)"
  by (cases x) (auto simp: startsIn_def optPart_def)

lemma startsIn_plus:
  assumes "startsIn ''+'' r"
  shows "r = [] \<or> hd r \<noteq> CHR ''-''" and "r = [] \<or> \<not> isIdentChar (hd r)"
  using assms by (auto simp: startsIn_def isIdentChar_def isDigit_def)

lemma startsIn_minus_plus:
  assumes "startsIn ''-+'' r"
  shows "r = [] \<or> hd r \<noteq> CHR ''.''" and "r = [] \<or> \<not> isDigit (hd r)"
  using assms by (auto simp: startsIn_def isDigit_def)

lemma startsIn_seps:
  assumes "startsIn ''.-+'' r"
  shows "r = [] \<or> \<not> isDigit (hd r)"
  using assms by (auto simp: startsIn_def isDigit_def)

lemma tailMajor_render:
  assumes v: "validParts maj mn pt pre bld"
  shows "tailMajor (render maj mn pt pre bld) (\<lambda>_. []) = Some (capsOf maj mn pt pre bld)"
proof -
  let ?rB = "optPart (CHR ''+'') bld @ []"
  let ?rP = "optPart (CHR ''-'') pre @ ?rB"
  let ?rPt = "optPart (CHR ''.'') pt @ ?rP"
  let ?rM = "optPart (CHR ''.'') mn @ ?rPt"
  let ?c1 = "(\<lambda>_. [])(1 := maj)"
  from v have maj: "maj \<noteq> []" "list_all isDigit maj"
    and mn: "optOk isNumber mn" and pt: "optOk isNumber pt" and ptmn: "pt = None \<or> mn \<noteq> None"
    and pre: "optOk isIdentRun pre" and bld: "optOk isIdentRun bld"
    by (simp_all add: validParts_def isNumber_def)
  have sB: "startsIn ''+'' ?rB"
    by (rule startsIn_optPart [where seps = "''+''"]) (simp_all add: startsIn_Nil)
  have sP: "startsIn ''-+'' ?rP"
    by (rule startsIn_optPart [OF _ _ sB]) simp_all
  have sPt: "startsIn ''.-+'' ?rPt"
    by (rule startsIn_optPart [OF _ _ sP]) auto
  have sM: "startsIn ''.-+'' ?rM"
    by (rule startsIn_optPart [OF _ _ sPt]) auto
  have b: "tailBuild ?rB c = Some (setGroup 5 bld c)" for c
  proof -
    have "tailBuild ?rB c = atEnd [] (setGroup 5 bld c)"
      by (rule layer_forward [OF tailBuild_layer])
        (use bld in \<open>simp add: optOk_def isIdentRun_def split: option.splits\<close>)
    then show ?thesis by (simp add: atEnd_def)
  qed
  have p: "tailPre ?rP c = tailBuild ?rB (setGroup 4 pre c)" for c
    by (rule layer_forward [OF tailPre_eq])
      (use pre startsIn_plus [OF sB] in \<open>simp add: optOk_def isIdentRun_def split: option.splits\<close>)
  have pa: "tailPatch ?rPt c = tailPre ?rP (setGroup 3 pt c)" for c
    by (rule layer_forward [OF tailPatch_eq])
      (use pt startsIn_minus_plus [OF sP] in \<open>simp add: optOk_def isNumber_def split: option.splits\<close>)
  have rPt: "?rPt = [] \<or> hd ?rPt \<noteq> CHR ''.''" if "mn = None"
  proof -
    from that ptmn have "pt = None" by simp
    then have "?rPt = ?rP" by (simp add: optPart_def)
    with startsIn_minus_plus(1) [OF sP] show ?thesis by simp
  qed
  have mi: "tailMinor ?rM c = tailPatch ?rPt (setGroup 2 mn c)" for c
    by (rule layer_forward [OF tailMinor_eq])
      (use mn startsIn_seps [OF sPt] rPt in \<open>simp add: optOk_def isNumber_def split: option.splits\<close>)
  have "takeWhile isDigit (maj @ ?rM) = maj" "dropWhile isDigit (maj @ ?rM) = ?rM"
    using takeWhile_stop [OF maj(2) startsIn_seps [OF sM]] by simp_all
  then have "tailMajor (maj @ ?rM) (\<lambda>_. []) = tailMinor ?rM ?c1"
    using maj(1) by (simp add: tailMajor_eq)
  also have "\<dots> = Some (capsOf maj mn pt pre bld)"
    by (simp only: mi pa p b capsOf_def)
  finally show ?thesis by (simp add: render_def)
qed

lemma tailMajor_parts:
  assumes some: "tailMajor s (\<lambda>_. []) = Some m"
  shows "\<exists>maj mn pt pre bld. validParts maj mn pt pre bld \<and> s = render maj mn pt pre bld
           \<and> m = capsOf maj mn pt pre bld"
proof -
  let ?maj = "takeWhile isDigit s"
  let ?c1 = "(\<lambda>_. [])(1 := ?maj)"
  from some have maj: "?maj \<noteq> []" and k1: "tailMinor (dropWhile isDigit s) ?c1 = Some m"
    by (simp_all add: tailMajor_eq split: if_splits)
  have majnum: "isNumber ?maj"
    using maj by (simp add: isNumber_def list_all_iff) (meson set_takeWhileD)
  from layer_backward [OF tailMinor_eq k1] obtain mn r2 where
    s1: "dropWhile isDigit s = optPart (CHR ''.'') mn @ r2"
    and k2: "tailPatch r2 (setGroup 2 mn ?c1) = Some m"
    and mn: "optOk (\<lambda>x. x \<noteq> [] \<and> list_all isDigit x) mn"
    and mnNone: "mn = None \<longrightarrow> r2 = [] \<or> hd r2 \<noteq> CHR ''.''"
    by blast
  from layer_backward [OF tailPatch_eq k2] obtain pt r3 where
    s2: "r2 = optPart (CHR ''.'') pt @ r3"
    and k3: "tailPre r3 (setGroup 3 pt (setGroup 2 mn ?c1)) = Some m"
    and pt: "optOk (\<lambda>x. x \<noteq> [] \<and> list_all isDigit x) pt"
    by blast
  from layer_backward [OF tailPre_eq k3] obtain pre r4 where
    s3: "r3 = optPart (CHR ''-'') pre @ r4"
    and k4: "tailBuild r4 (setGroup 4 pre (setGroup 3 pt (setGroup 2 mn ?c1))) = Some m"
    and pre: "optOk (\<lambda>x. x \<noteq> [] \<and> list_all isIdentChar x) pre"
    by blast
  from layer_backward [OF tailBuild_layer k4] obtain bld r5 where
    s4: "r4 = optPart (CHR ''+'') bld @ r5"
    and k5: "atEnd r5 (setGroup 5 bld (setGroup 4 pre (setGroup 3 pt (setGroup 2 mn ?c1)))) = Some m"
    and bld: "optOk (\<lambda>x. x \<noteq> [] \<and> list_all isIdentChar x) bld"
    by blast
  from k5 have r5: "r5 = []" and m: "m = capsOf ?maj mn pt pre bld"
    by (simp_all add: atEnd_def capsOf_def split: if_splits)
  have ptmn: "pt = None \<or> mn \<noteq> None"
  proof (cases pt)
    case None
    then show ?thesis by simp
  next
    case (Some x)
    then have "r2 \<noteq> [] \<and> hd r2 = CHR ''.''" by (simp add: s2 optPart_def)
    with mnNone show ?thesis by blast
  qed
  have "s = ?maj @ dropWhile isDigit s" by simp
  then have "s = render ?maj mn pt pre bld"
    by (simp only: s1 s2 s3 s4 r5 render_def append_Nil2)
  moreover have "validParts ?maj mn pt pre bld"
    using majnum mn pt pre bld ptmn
    by (simp add: validParts_def optOk_def isNumber_def isIdentRun_def split: option.splits)
  ultimately show ?thesis using m by blast
qed

subsection \<open>The pattern against the grammar\<close>

lemma splitOn_nonempty: "splitOn d s \<noteq> []"
  by (induction s) (auto split: list.splits)

lemma splitOn_no_sep: "d \<notin> set a \<Longrightarrow> splitOn d a = [a]"
  by (induction a) auto

lemma splitOn_append: "d \<notin> set a \<Longrightarrow> splitOn d (a @ d # r) = a # splitOn d r"
  by (induction a) auto

lemma splitOn_single: "splitOn d s = [a] \<Longrightarrow> s = a"
proof (induction s arbitrary: a)
  case Nil
  then show ?case by simp
next
  case (Cons c cs)
  obtain x xs where sp: "splitOn d cs = x # xs"
    using splitOn_nonempty [of d cs] by (cases "splitOn d cs") auto
  from Cons.prems sp have nd: "c \<noteq> d" by (auto split: if_splits)
  with Cons.prems sp have "a = c # x" "xs = []" by simp_all
  with sp Cons.IH [of x] show ?case by simp
qed

lemma splitOn_Cons: "splitOn d s = a # b # bs \<Longrightarrow> \<exists>r. s = a @ d # r \<and> splitOn d r = b # bs"
proof (induction s arbitrary: a)
  case Nil
  then show ?case by simp
next
  case (Cons c cs)
  show ?case
  proof (cases "c = d")
    case True
    with Cons.prems show ?thesis by auto
  next
    case False
    obtain x xs where sp: "splitOn d cs = x # xs"
      using splitOn_nonempty [of d cs] by (cases "splitOn d cs") auto
    with False Cons.prems have a: "a = c # x" and t: "xs = b # bs"
      by simp_all
    from Cons.IH [of x] sp t obtain r where "cs = x @ d # r" "splitOn d r = b # bs"
      by blast
    with a show ?thesis by auto
  qed
qed

lemma isNumber_no_sep:
  assumes "isNumber x"
  shows "list_all (\<lambda>c. c \<noteq> CHR ''+'') x" and "list_all (\<lambda>c. c \<noteq> CHR ''-'') x"
    and "CHR ''.'' \<notin> set x"
  using assms isDigit_not_sep by (auto simp: isNumber_def list_all_iff)

lemma isIdentRun_no_plus: "isIdentRun x \<Longrightarrow> list_all (\<lambda>c. c \<noteq> CHR ''+'') x"
  using isIdentChar_not_plus by (auto simp: isIdentRun_def list_all_iff)

lemma optPart_number:
  assumes "optOk isNumber x"
  shows "list_all (\<lambda>c. c \<noteq> CHR ''+'') (optPart (CHR ''.'') x)"
    and "list_all (\<lambda>c. c \<noteq> CHR ''-'') (optPart (CHR ''.'') x)"
  using assms isNumber_no_sep by (auto simp: optOk_def optPart_def split: option.splits)

lemma optPart_back: "(if optPart d x = [] then None else Some (tl (optPart d x))) = x"
  by (cases x) (simp_all add: optPart_def)

lemma optPart_head: "optPart d x = [] \<or> \<not> hd (optPart d x) \<noteq> d"
  by (cases x) (simp_all add: optPart_def)

lemma versionParts_render:
  assumes v: "validParts maj mn pt pre bld" and body: "stripV s = render maj mn pt pre bld"
  shows "versionParts s = (maj # optList mn @ optList pt, pre, bld)"
proof -
  let ?N = "maj @ optPart (CHR ''.'') mn @ optPart (CHR ''.'') pt"
  let ?P = "optPart (CHR ''-'') pre"
  let ?B = "optPart (CHR ''+'') bld"
  from v have maj: "isNumber maj" and mn: "optOk isNumber mn" and pt: "optOk isNumber pt"
    and ptmn: "pt = None \<or> mn \<noteq> None" and pre: "optOk isIdentRun pre"
    by (simp_all add: validParts_def)
  have Nplus: "list_all (\<lambda>c. c \<noteq> CHR ''+'') ?N"
    using isNumber_no_sep(1) [OF maj] optPart_number(1) [OF mn] optPart_number(1) [OF pt]
    by simp
  have Nminus: "list_all (\<lambda>c. c \<noteq> CHR ''-'') ?N"
    using isNumber_no_sep(2) [OF maj] optPart_number(2) [OF mn] optPart_number(2) [OF pt]
    by simp
  have Pplus: "list_all (\<lambda>c. c \<noteq> CHR ''+'') ?P"
    using pre isIdentRun_no_plus by (auto simp: optOk_def optPart_def split: option.splits)
  have b: "stripV s = (?N @ ?P) @ ?B"
    by (simp add: body render_def)
  have core: "takeWhile (\<lambda>c. c \<noteq> CHR ''+'') (stripV s) = ?N @ ?P"
      "dropWhile (\<lambda>c. c \<noteq> CHR ''+'') (stripV s) = ?B"
    unfolding b using takeWhile_stop [of "\<lambda>c. c \<noteq> CHR ''+''" "?N @ ?P" ?B] Nplus Pplus
      optPart_head [of "CHR ''+''" bld]
    by simp_all
  have nums: "takeWhile (\<lambda>c. c \<noteq> CHR ''-'') (?N @ ?P) = ?N"
      "dropWhile (\<lambda>c. c \<noteq> CHR ''-'') (?N @ ?P) = ?P"
    using takeWhile_stop [of "\<lambda>c. c \<noteq> CHR ''-''" ?N ?P] Nminus optPart_head [of "CHR ''-''" pre]
    by simp_all
  have split: "splitOn (CHR ''.'') ?N = maj # optList mn @ optList pt"
  proof (cases mn)
    case None
    with ptmn have "pt = None" by simp
    with None show ?thesis
      using isNumber_no_sep(3) [OF maj] by (simp add: optPart_def optList_def splitOn_no_sep)
  next
    case mnS: (Some x)
    with mn have x: "CHR ''.'' \<notin> set x" using isNumber_no_sep(3) by (simp add: optOk_def)
    show ?thesis
    proof (cases pt)
      case None
      with mnS x show ?thesis
        using isNumber_no_sep(3) [OF maj]
        by (simp add: optPart_def optList_def splitOn_append splitOn_no_sep)
    next
      case (Some y)
      with pt have y: "CHR ''.'' \<notin> set y" using isNumber_no_sep(3) by (simp add: optOk_def)
      have "splitOn (CHR ''.'') (maj @ CHR ''.'' # x @ CHR ''.'' # y) = maj # x # [y]"
        using isNumber_no_sep(3) [OF maj] x y by (simp add: splitOn_append splitOn_no_sep)
      with mnS Some show ?thesis by (simp add: optPart_def optList_def)
    qed
  qed
  show ?thesis
    unfolding versionParts_def Let_def core nums split optPart_back ..
qed

lemma dropWhile_sep:
  "dropWhile (\<lambda>c. c \<noteq> d) xs =
     optPart d (if dropWhile (\<lambda>c. c \<noteq> d) xs = [] then None
                else Some (tl (dropWhile (\<lambda>c. c \<noteq> d) xs)))"
proof (cases "dropWhile (\<lambda>c. c \<noteq> d) xs")
  case Nil
  then show ?thesis by (simp add: optPart_def)
next
  case (Cons y ys)
  then have "\<not> y \<noteq> d" by (rule dropWhile_head)
  with Cons show ?thesis by (simp add: optPart_def)
qed

lemma versionParts_valid:
  assumes parts: "versionParts s = (comps, pre, bld)"
    and len: "length comps \<le> 3" and nums: "list_all isNumber comps"
    and pre: "optOk isIdentRun pre" and bld: "optOk isIdentRun bld"
  shows "\<exists>maj mn pt. validParts maj mn pt pre bld \<and> stripV s = render maj mn pt pre bld
           \<and> comps = maj # optList mn @ optList pt"
proof -
  let ?core = "takeWhile (\<lambda>c. c \<noteq> CHR ''+'') (stripV s)"
  let ?afterCore = "dropWhile (\<lambda>c. c \<noteq> CHR ''+'') (stripV s)"
  let ?nums = "takeWhile (\<lambda>c. c \<noteq> CHR ''-'') ?core"
  let ?afterNums = "dropWhile (\<lambda>c. c \<noteq> CHR ''-'') ?core"
  from parts have comps: "comps = splitOn (CHR ''.'') ?nums"
    and preq: "pre = (if ?afterNums = [] then None else Some (tl ?afterNums))"
    and bldq: "bld = (if ?afterCore = [] then None else Some (tl ?afterCore))"
    by (simp_all add: versionParts_def Let_def)
  have aN: "?afterNums = optPart (CHR ''-'') pre"
    unfolding preq by (rule dropWhile_sep)
  have aC: "?afterCore = optPart (CHR ''+'') bld"
    unfolding bldq by (rule dropWhile_sep)
  have "stripV s = ?core @ ?afterCore" by simp
  also have "?core = ?nums @ ?afterNums" by simp
  finally have body: "stripV s = ?nums @ optPart (CHR ''-'') pre @ optPart (CHR ''+'') bld"
    using aN aC by simp
  have "\<exists>maj mn pt. isNumber maj \<and> optOk isNumber mn \<and> optOk isNumber pt
      \<and> (pt = None \<or> mn \<noteq> None)
      \<and> ?nums = maj @ optPart (CHR ''.'') mn @ optPart (CHR ''.'') pt
      \<and> comps = maj # optList mn @ optList pt"
  proof -
    have "comps \<noteq> []"
      unfolding comps by (rule splitOn_nonempty)
    then obtain a as where c1: "comps = a # as"
      by (cases comps) auto
    show ?thesis
    proof (cases as)
      case Nil
      with c1 comps have "?nums = a" using splitOn_single by metis
      with c1 Nil nums have "isNumber a \<and> optOk isNumber None \<and> optOk isNumber None
          \<and> (None = (None :: string option) \<or> None \<noteq> (None :: string option))
          \<and> ?nums = a @ optPart (CHR ''.'') None @ optPart (CHR ''.'') None
          \<and> comps = a # optList None @ optList None"
        by (simp add: optOk_def optPart_def optList_def)
      then show ?thesis by blast
    next
      case as: (Cons b bs)
      with c1 comps obtain r where r: "?nums = a @ CHR ''.'' # r" "splitOn (CHR ''.'') r = b # bs"
        using splitOn_Cons by metis
      show ?thesis
      proof (cases bs)
        case Nil
        with r have "r = b" using splitOn_single by metis
        with r c1 as Nil nums have "isNumber a \<and> optOk isNumber (Some b) \<and> optOk isNumber None
            \<and> (None = (None :: string option) \<or> Some b \<noteq> None)
            \<and> ?nums = a @ optPart (CHR ''.'') (Some b) @ optPart (CHR ''.'') None
            \<and> comps = a # optList (Some b) @ optList None"
          by (simp add: optOk_def optPart_def optList_def)
        then show ?thesis by blast
      next
        case bs: (Cons c cs)
        with len c1 as have cs: "cs = []" by simp
        from r bs obtain r' where r': "r = b @ CHR ''.'' # r'" "splitOn (CHR ''.'') r' = c # cs"
          using splitOn_Cons by metis
        with cs have "r' = c" using splitOn_single by metis
        with r r' c1 as bs cs nums have "isNumber a \<and> optOk isNumber (Some b)
            \<and> optOk isNumber (Some c)
            \<and> (Some c = None \<or> Some b \<noteq> None)
            \<and> ?nums = a @ optPart (CHR ''.'') (Some b) @ optPart (CHR ''.'') (Some c)
            \<and> comps = a # optList (Some b) @ optList (Some c)"
          by (simp add: optOk_def optPart_def optList_def)
        then show ?thesis by blast
      qed
    qed
  qed
  then obtain maj mn pt where "isNumber maj" "optOk isNumber mn" "optOk isNumber pt"
      "pt = None \<or> mn \<noteq> None"
      "?nums = maj @ optPart (CHR ''.'') mn @ optPart (CHR ''.'') pt"
      "comps = maj # optList mn @ optList pt"
    by blast
  with body pre bld have "validParts maj mn pt pre bld \<and> stripV s = render maj mn pt pre bld
      \<and> comps = maj # optList mn @ optList pt"
    by (simp add: validParts_def render_def)
  then show ?thesis by blast
qed

lemma capsOf_sel:
  "capsOf maj mn pt pre bld (Suc 0) = maj"
  "capsOf maj mn pt pre bld 1 = maj"
  "capsOf maj mn pt pre bld 2 = optText mn"
  "capsOf maj mn pt pre bld 3 = optText pt"
  "capsOf maj mn pt pre bld 4 = optText pre"
  "capsOf maj mn pt pre bld 5 = optText bld"
  by (simp_all add: capsOf_def setGroup_def optText_def split: option.splits)

lemma if_nonempty: "(if x \<noteq> [] then x else []) = x"
  by simp

lemma Atoi_optional:
  assumes "optOk isNumber x"
  shows "(if optText x \<noteq> [] then Atoi (optText x) else Inr 0) =
           (if optVal x \<le> maxInt then Inr (optVal x) else Inl ErrRange)"
proof (cases x)
  case None
  then show ?thesis by (simp add: optText_def optVal_def maxInt_def)
next
  case (Some t)
  with assms have t: "isNumber t" by (simp add: optOk_def)
  then have "t \<noteq> []" by (simp add: isNumber_def)
  with Some Atoi_number [OF t] show ?thesis by (simp add: optText_def optVal_def)
qed

lemma ParseVersion_render:
  assumes ne: "s \<noteq> []" and body: "stripV s = render maj mn pt pre bld"
    and v: "validParts maj mn pt pre bld"
  shows "ParseVersion s =
     (if maxInt < decValue maj then Inl (ErrInvalidMajor maj)
      else if maxInt < optVal mn then Inl (ErrInvalidMinor (optText mn))
      else if maxInt < optVal pt then Inl (ErrInvalidPatch (optText pt))
      else Inr \<lparr>Major = decValue maj, Minor = optVal mn, Patch = optVal pt,
                Prerelease = optText pre, Build = optText bld\<rparr>)"
proof -
  from v have maj: "isNumber maj" and mn: "optOk isNumber mn" and pt: "optOk isNumber pt"
    by (simp_all add: validParts_def)
  have fs: "FindStringSubmatch versionRegex s = Some (capsOf maj mn pt pre bld)"
    by (simp only: FindStringSubmatch_versionRegex body tailMajor_render [OF v])
  have "ParseVersion s =
     (case (if decValue maj \<le> maxInt then Inr (decValue maj) else Inl ErrRange) of
        Inl _ \<Rightarrow> Inl (ErrInvalidMajor maj)
      | Inr major \<Rightarrow>
          (case (if optVal mn \<le> maxInt then Inr (optVal mn) else Inl ErrRange) of
             Inl _ \<Rightarrow> Inl (ErrInvalidMinor (optText mn))
           | Inr minor \<Rightarrow>
               (case (if optVal pt \<le> maxInt then Inr (optVal pt) else Inl ErrRange) of
                  Inl _ \<Rightarrow> Inl (ErrInvalidPatch (optText pt))
                | Inr patch \<Rightarrow>
                    Inr \<lparr>Major = major, Minor = minor, Patch = patch,
                         Prerelease = optText pre, Build = optText bld\<rparr>)))"
    unfolding ParseVersion_def fs
    by (simp add: ne capsOf_sel Atoi_number [OF maj] Atoi_optional [OF mn]
        Atoi_optional [OF pt] if_nonempty split del: if_split cong: sum.case_cong if_cong)
  then show ?thesis by (simp add: not_le [symmetric])
qed

lemma ParseVersion_success_parts:
  assumes ok: "ParseVersion s = Inr v"
  shows "\<exists>maj mn pt pre bld. validParts maj mn pt pre bld \<and> stripV s = render maj mn pt pre bld
      \<and> s \<noteq> []
      \<and> decValue maj \<le> maxInt \<and> optVal mn \<le> maxInt \<and> optVal pt \<le> maxInt
      \<and> v = \<lparr>Major = decValue maj, Minor = optVal mn, Patch = optVal pt,
                Prerelease = optText pre, Build = optText bld\<rparr>"
proof -
  from ok have ne: "s \<noteq> []" by (auto simp: ParseVersion_def)
  from ok ne obtain m where "FindStringSubmatch versionRegex s = Some m"
    by (cases "FindStringSubmatch versionRegex s") (simp_all add: ParseVersion_def)
  then have "tailMajor (stripV s) (\<lambda>_. []) = Some m"
    by (simp only: FindStringSubmatch_versionRegex)
  from tailMajor_parts [OF this] obtain maj mn pt pre bld where
    v: "validParts maj mn pt pre bld" and body: "stripV s = render maj mn pt pre bld"
    by blast
  from ParseVersion_render [OF ne body v] ok
  have "decValue maj \<le> maxInt \<and> optVal mn \<le> maxInt \<and> optVal pt \<le> maxInt
      \<and> v = \<lparr>Major = decValue maj, Minor = optVal mn, Patch = optVal pt,
                Prerelease = optText pre, Build = optText bld\<rparr>"
    by (simp split: if_splits)
  with v body ne show ?thesis by blast
qed

lemma versionOf_parts:
  assumes "pt = None \<or> mn \<noteq> None"
  shows "versionOf (maj # optList mn @ optList pt, pre, bld) =
     \<lparr>Major = decValue maj, Minor = optVal mn, Patch = optVal pt,
      Prerelease = optText pre, Build = optText bld\<rparr>"
  using assms
  by (cases mn; cases pt) (simp_all add: versionOf_def optList_def optVal_def)

lemma ParseVersion_matches:
  assumes ok: "ParseVersion s = Inr v"
  shows "matchesGrammar fitsInt isIdentRun s \<and> v = versionOf (versionParts s)"
proof -
  from ParseVersion_success_parts [OF ok] obtain maj mn pt pre bld where
    v: "validParts maj mn pt pre bld" and body: "stripV s = render maj mn pt pre bld"
    and fits: "decValue maj \<le> maxInt" "optVal mn \<le> maxInt" "optVal pt \<le> maxInt"
    and veq: "v = \<lparr>Major = decValue maj, Minor = optVal mn, Patch = optVal pt,
                Prerelease = optText pre, Build = optText bld\<rparr>"
    by blast
  have parts: "versionParts s = (maj # optList mn @ optList pt, pre, bld)"
    by (rule versionParts_render [OF v body])
  from v have ptmn: "pt = None \<or> mn \<noteq> None" by (simp add: validParts_def)
  have "matchesGrammar fitsInt isIdentRun s"
    using v fits unfolding matchesGrammar_def parts
    by (cases mn; cases pt)
      (simp_all add: validParts_def optOk_def optList_def optVal_def fitsInt_def)
  moreover have "v = versionOf (versionParts s)"
    unfolding parts veq by (rule versionOf_parts [OF ptmn, symmetric])
  ultimately show ?thesis by blast
qed

lemma matches_ParseVersion:
  assumes mg: "matchesGrammar fitsInt isIdentRun s"
  shows "ParseVersion s = Inr (versionOf (versionParts s))"
proof -
  obtain comps pre bld where parts: "versionParts s = (comps, pre, bld)"
    by (cases "versionParts s") auto
  from mg parts have len: "length comps \<le> 3" and fit: "list_all fitsInt comps"
    and pre: "optOk isIdentRun pre" and bld: "optOk isIdentRun bld"
    by (simp_all add: matchesGrammar_def)
  from fit have num: "list_all isNumber comps"
    by (simp add: list_all_iff fitsInt_def)
  from versionParts_valid [OF parts len num pre bld] obtain maj mn pt where
    v: "validParts maj mn pt pre bld" and body: "stripV s = render maj mn pt pre bld"
    and comps: "comps = maj # optList mn @ optList pt"
    by blast
  from v have ptmn: "pt = None \<or> mn \<noteq> None" and maj: "maj \<noteq> []"
    by (simp_all add: validParts_def isNumber_def)
  have ne: "s \<noteq> []"
  proof
    assume "s = []"
    with body maj show False by (simp add: stripV_def render_def)
  qed
  from fit comps have fits: "decValue maj \<le> maxInt" "optVal mn \<le> maxInt" "optVal pt \<le> maxInt"
    by (cases mn; cases pt; simp add: optList_def optVal_def fitsInt_def maxInt_def)+
  show ?thesis
    unfolding parts comps versionOf_parts [OF ptmn]
    using ParseVersion_render [OF ne body v] fits by simp
qed

lemma no_match_format:
  assumes ne: "s \<noteq> []" and no: "\<not> matchesGrammar isNumber isIdentRun s"
  shows "ParseVersion s = Inl (ErrInvalidVersionFormat s)"
proof (cases "FindStringSubmatch versionRegex s")
  case None
  with ne show ?thesis by (simp add: ParseVersion_def)
next
  case (Some m)
  then have "tailMajor (stripV s) (\<lambda>_. []) = Some m"
    by (simp only: FindStringSubmatch_versionRegex)
  from tailMajor_parts [OF this] obtain maj mn pt pre bld where
    v: "validParts maj mn pt pre bld" and body: "stripV s = render maj mn pt pre bld"
    by blast
  have parts: "versionParts s = (maj # optList mn @ optList pt, pre, bld)"
    by (rule versionParts_render [OF v body])
  have "matchesGrammar isNumber isIdentRun s"
    using v unfolding matchesGrammar_def parts
    by (cases mn; cases pt) (simp_all add: validParts_def optOk_def optList_def)
  with no show ?thesis by simp
qed

text \<open>
  The recogniser accepts exactly the strings put together from valid parts: an optional
  \<^verbatim>\<open>v\<close>, a number, an optional second and third number each after a dot, an optional
  prerelease after a minus sign and an optional build after a plus sign.
\<close>

lemma matchesGrammar_generative:
  "matchesGrammar isNumber isIdentRun s \<longleftrightarrow>
     (\<exists>maj mn pt pre bld. validParts maj mn pt pre bld \<and> stripV s = render maj mn pt pre bld)"
proof
  assume mg: "matchesGrammar isNumber isIdentRun s"
  obtain comps pre bld where parts: "versionParts s = (comps, pre, bld)"
    by (cases "versionParts s") auto
  from mg parts have "length comps \<le> 3" "list_all isNumber comps"
    "optOk isIdentRun pre" "optOk isIdentRun bld"
    by (simp_all add: matchesGrammar_def)
  from versionParts_valid [OF parts this]
  show "\<exists>maj mn pt pre bld. validParts maj mn pt pre bld \<and> stripV s = render maj mn pt pre bld"
    by blast
next
  assume "\<exists>maj mn pt pre bld. validParts maj mn pt pre bld \<and> stripV s = render maj mn pt pre bld"
  then obtain maj mn pt pre bld where
    v: "validParts maj mn pt pre bld" and body: "stripV s = render maj mn pt pre bld"
    by blast
  have parts: "versionParts s = (maj # optList mn @ optList pt, pre, bld)"
    by (rule versionParts_render [OF v body])
  show "matchesGrammar isNumber isIdentRun s"
    using v unfolding matchesGrammar_def parts
    by (cases mn; cases pt) (simp_all add: validParts_def optOk_def optList_def)
qed

text \<open>
  C5, as amended. \<open>ParseVersion s\<close> succeeds exactly when \<open>s\<close> matches the grammar
  \<^verbatim>\<open>["v"] MAJOR ["." MINOR ["." PATCH]] ["-" PRERELEASE] ["+" BUILD]\<close> end to end,
  where \<^verbatim>\<open>MAJOR\<close>, \<^verbatim>\<open>MINOR\<close> and \<^verbatim>\<open>PATCH\<close> are one or more ASCII digits whose
  value is at most \<open>2^63 - 1\<close>, and \<^verbatim>\<open>PRERELEASE\<close> and \<^verbatim>\<open>BUILD\<close> are non-empty runs
  of \<^verbatim>\<open>[0-9A-Za-z.-]\<close>. On success the result is the version the string denotes, with
  an absent minor and patch 0. Every other string is an error: the empty string, a
  string whose major is not a number, one with more than three numeric components, one
  that starts with a minus sign; a string that is not empty and fails the grammar
  before any range check gets the format error.
\<close>

theorem ParseVersion_grammar:
  "(matchesGrammar fitsInt isIdentRun s \<longrightarrow> ParseVersion s = Inr (versionOf (versionParts s)))
   \<and> (\<not> matchesGrammar fitsInt isIdentRun s \<longrightarrow> (\<exists>e. ParseVersion s = Inl e))
   \<and> (ParseVersion s = Inr v \<longrightarrow>
        (length (fst (versionParts s)) < 2 \<longrightarrow> Minor v = 0)
        \<and> (length (fst (versionParts s)) < 3 \<longrightarrow> Patch v = 0))
   \<and> (s \<noteq> [] \<and> \<not> matchesGrammar isNumber isIdentRun s \<longrightarrow>
        ParseVersion s = Inl (ErrInvalidVersionFormat s))
   \<and> ParseVersion [] = Inl ErrEmptyVersion
   \<and> (\<not> isNumber (hd (fst (versionParts s))) \<longrightarrow> (\<exists>e. ParseVersion s = Inl e))
   \<and> (3 < length (fst (versionParts s)) \<longrightarrow> (\<exists>e. ParseVersion s = Inl e))
   \<and> (\<exists>e. ParseVersion (CHR ''-'' # s) = Inl e)"
proof -
  have fail: "\<exists>e. ParseVersion s = Inl e" if "\<not> matchesGrammar fitsInt isIdentRun s" for s
  proof (cases "ParseVersion s")
    case (Inl e)
    then show ?thesis by blast
  next
    case (Inr v)
    with that ParseVersion_matches [of s v] show ?thesis by blast
  qed
  have comps_ne: "fst (versionParts s) \<noteq> []"
    by (simp add: versionParts_def Let_def splitOn_nonempty)
  have a: "matchesGrammar fitsInt isIdentRun s \<longrightarrow> ParseVersion s = Inr (versionOf (versionParts s))"
    using matches_ParseVersion by blast
  have b: "\<not> matchesGrammar fitsInt isIdentRun s \<longrightarrow> (\<exists>e. ParseVersion s = Inl e)"
    using fail by blast
  have c: "ParseVersion s = Inr v \<longrightarrow>
        (length (fst (versionParts s)) < 2 \<longrightarrow> Minor v = 0)
        \<and> (length (fst (versionParts s)) < 3 \<longrightarrow> Patch v = 0)"
  proof
    assume "ParseVersion s = Inr v"
    then have "v = versionOf (versionParts s)" using ParseVersion_matches by blast
    then show "(length (fst (versionParts s)) < 2 \<longrightarrow> Minor v = 0)
        \<and> (length (fst (versionParts s)) < 3 \<longrightarrow> Patch v = 0)"
      by (cases "versionParts s") (auto simp: versionOf_def)
  qed
  have d: "s \<noteq> [] \<and> \<not> matchesGrammar isNumber isIdentRun s \<longrightarrow>
        ParseVersion s = Inl (ErrInvalidVersionFormat s)"
    using no_match_format by blast
  have e: "ParseVersion [] = Inl ErrEmptyVersion"
    by (simp add: ParseVersion_def)
  have f: "\<not> isNumber (hd (fst (versionParts s))) \<longrightarrow> (\<exists>e. ParseVersion s = Inl e)"
  proof
    assume n: "\<not> isNumber (hd (fst (versionParts s)))"
    have "\<not> matchesGrammar fitsInt isIdentRun s"
    proof
      assume "matchesGrammar fitsInt isIdentRun s"
      then have "list_all fitsInt (fst (versionParts s))"
        by (cases "versionParts s") (simp add: matchesGrammar_def)
      with comps_ne have "fitsInt (hd (fst (versionParts s)))"
        by (cases "fst (versionParts s)") simp_all
      with n show False by (simp add: fitsInt_def)
    qed
    then show "\<exists>e. ParseVersion s = Inl e" by (rule fail)
  qed
  have g: "3 < length (fst (versionParts s)) \<longrightarrow> (\<exists>e. ParseVersion s = Inl e)"
  proof
    assume "3 < length (fst (versionParts s))"
    then have "\<not> matchesGrammar fitsInt isIdentRun s"
      by (cases "versionParts s") (simp add: matchesGrammar_def)
    then show "\<exists>e. ParseVersion s = Inl e" by (rule fail)
  qed
  have h: "\<exists>e. ParseVersion (CHR ''-'' # s) = Inl e"
    by (simp add: ParseVersion_def FindStringSubmatch_versionRegex stripV_def tailMajor_eq
        isDigit_def)
  from a b c d e f g h show ?thesis by blast
qed

theorem ParseVersion_grammar_witness:
  "ParseVersion ''v1.22-rc.1+b7'' =
     Inr \<lparr>Major = 1, Minor = 22, Patch = 0, Prerelease = ''rc.1'', Build = ''b7''\<rparr>
   \<and> ParseVersion ''24'' =
     Inr \<lparr>Major = 24, Minor = 0, Patch = 0, Prerelease = [], Build = []\<rparr>
   \<and> ParseVersion ''1.2.3.4.5'' = Inl (ErrInvalidVersionFormat ''1.2.3.4.5'')
   \<and> ParseVersion ''a.b.c'' = Inl (ErrInvalidVersionFormat ''a.b.c'')"
proof -
  have a: "matchesGrammar fitsInt isIdentRun ''v1.22-rc.1+b7''"
    by code_simp
  have a': "versionOf (versionParts ''v1.22-rc.1+b7'') =
      \<lparr>Major = 1, Minor = 22, Patch = 0, Prerelease = ''rc.1'', Build = ''b7''\<rparr>"
    by code_simp
  have b: "matchesGrammar fitsInt isIdentRun ''24''"
    by code_simp
  have b': "versionOf (versionParts ''24'') =
      \<lparr>Major = 24, Minor = 0, Patch = 0, Prerelease = [], Build = []\<rparr>"
    by code_simp
  have c: "''1.2.3.4.5'' \<noteq> [] \<and> \<not> matchesGrammar isNumber isIdentRun ''1.2.3.4.5''"
    by code_simp
  have d: "''a.b.c'' \<noteq> [] \<and> \<not> matchesGrammar isNumber isIdentRun ''a.b.c''"
    by code_simp
  from a a' b b' c d
    ParseVersion_grammar [of "''v1.22-rc.1+b7''"] ParseVersion_grammar [of "''24''"]
    ParseVersion_grammar [of "''1.2.3.4.5''"] ParseVersion_grammar [of "''a.b.c''"]
  show ?thesis by simp
qed

text \<open>
  The grammar as the specification states it fails in both directions: \<^verbatim>\<open>1-.\<close> parses although its
  prerelease has empty segments, and \<^verbatim>\<open>9223372036854775808\<close> is all digits but does
  not parse, since \<^verbatim>\<open>strconv.Atoi\<close> reports a range error.
\<close>

theorem ParseVersion_specified_grammar_counterexample:
  "ParseVersion ''1-.'' =
     Inr \<lparr>Major = 1, Minor = 0, Patch = 0, Prerelease = ''.'', Build = []\<rparr>
   \<and> \<not> matchesGrammar isNumber isDotSegments ''1-.''
   \<and> matchesGrammar isNumber isDotSegments ''9223372036854775808''
   \<and> ParseVersion ''9223372036854775808'' = Inl (ErrInvalidMajor ''9223372036854775808'')"
  by code_simp

subsection \<open>Rendering and parsing again\<close>

lemma optVal_nonneg: "optOk isNumber x \<Longrightarrow> 0 \<le> optVal x"
  by (cases x) (simp_all add: optVal_def optOk_def isNumber_def decValue_nonneg)

lemma optPart_optText:
  "optOk isIdentRun x \<Longrightarrow> (if optText x \<noteq> [] then d # optText x else []) = optPart d x"
  by (cases x) (simp_all add: optText_def optPart_def optOk_def isIdentRun_def)

lemma String_render:
  assumes v: "validParts maj mn pt pre bld"
  shows "String \<lparr>Major = decValue maj, Minor = optVal mn, Patch = optVal pt,
                 Prerelease = optText pre, Build = optText bld\<rparr> =
         render (decimal (decValue maj)) (Some (decimal (optVal mn))) (Some (decimal (optVal pt)))
           pre bld"
proof -
  from v have maj: "0 \<le> decValue maj" and mn: "0 \<le> optVal mn" and pt: "0 \<le> optVal pt"
    and pre: "optOk isIdentRun pre" and bld: "optOk isIdentRun bld"
    by (simp_all add: validParts_def isNumber_def decValue_nonneg optVal_nonneg)
  have p: "(if optText pre \<noteq> [] then CHR ''-'' # optText pre else []) = optPart (CHR ''-'') pre"
    by (rule optPart_optText [OF pre])
  have b: "(if optText bld \<noteq> [] then CHR ''+'' # optText bld else []) = optPart (CHR ''+'') bld"
    by (rule optPart_optText [OF bld])
  show ?thesis
    using maj mn pt p b
    by (cases "optText pre = []"; cases "optText bld = []")
      (simp_all add: String_def formatInt_def render_def optPart_def Let_def)
qed

lemma Compare_same: "Compare v v = 0"
  by (simp add: Compare_def comparePrerelease_def)

text \<open>
  C7. For a version \<open>v\<close> that \<open>ParseVersion\<close> returned, \<open>ParseVersion (String v)\<close>
  succeeds and returns \<open>v\<close> itself, which compares equal to \<open>v\<close>; \<open>String v\<close> is
  \<^verbatim>\<open>MAJOR.MINOR.PATCH\<close>, then \<^verbatim>\<open>-PRERELEASE\<close> when there is a prerelease, then
  \<^verbatim>\<open>+BUILD\<close> when there is a build.
\<close>

theorem ParseVersion_String_roundtrip:
  assumes ok: "ParseVersion s = Inr v"
  shows "ParseVersion (String v) = Inr v
     \<and> (\<exists>v'. ParseVersion (String v) = Inr v' \<and> Compare v' v = 0)
     \<and> String v =
         formatInt (Major v) @ ''.'' @ formatInt (Minor v) @ ''.'' @ formatInt (Patch v)
           @ (if Prerelease v \<noteq> [] then ''-'' @ Prerelease v else [])
           @ (if Build v \<noteq> [] then ''+'' @ Build v else [])"
proof -
  from ParseVersion_success_parts [OF ok] obtain maj mn pt pre bld where
    v: "validParts maj mn pt pre bld"
    and fits: "decValue maj \<le> maxInt" "optVal mn \<le> maxInt" "optVal pt \<le> maxInt"
    and veq: "v = \<lparr>Major = decValue maj, Minor = optVal mn, Patch = optVal pt,
                Prerelease = optText pre, Build = optText bld\<rparr>"
    by blast
  let ?M = "decimal (decValue maj)" and ?m = "decimal (optVal mn)" and ?p = "decimal (optVal pt)"
  from v have nonneg: "0 \<le> decValue maj" "0 \<le> optVal mn" "0 \<le> optVal pt"
    by (simp_all add: validParts_def isNumber_def decValue_nonneg optVal_nonneg)
  have M: "isNumber ?M" "decValue ?M = decValue maj"
    and m: "isNumber ?m" "decValue ?m = optVal mn"
    and p: "isNumber ?p" "decValue ?p = optVal pt"
    using decimal_number nonneg by simp_all
  have str: "String v = render ?M (Some ?m) (Some ?p) pre bld"
    unfolding veq by (rule String_render [OF v])
  have v': "validParts ?M (Some ?m) (Some ?p) pre bld"
    using v M m p by (simp add: validParts_def optOk_def)
  from M(1) obtain c cs where Mc: "?M = c # cs" and c: "isDigit c"
    by (cases ?M) (auto simp: isNumber_def)
  have hd: "String v = c # cs @ optPart (CHR ''.'') (Some ?m) @ optPart (CHR ''.'') (Some ?p)
      @ optPart (CHR ''-'') pre @ optPart (CHR ''+'') bld"
    unfolding str render_def Mc by simp
  have ne: "String v \<noteq> []" unfolding hd by simp
  have "c \<noteq> CHR ''v''" using isDigit_not_sep [OF c] by simp
  then have strip: "stripV (String v) = String v"
    unfolding hd by (simp add: stripV_def)
  have body: "stripV (String v) = render ?M (Some ?m) (Some ?p) pre bld"
    using strip unfolding str .
  have o: "optVal (Some ?m) = optVal mn" "optVal (Some ?p) = optVal pt"
    using m(2) p(2) by (simp_all add: optVal_def)
  have rt: "ParseVersion (String v) = Inr v"
    using ParseVersion_render [OF ne body v'] fits
    by (simp add: M(2) o veq)
  have fmt: "String v =
         formatInt (Major v) @ ''.'' @ formatInt (Minor v) @ ''.'' @ formatInt (Patch v)
           @ (if Prerelease v \<noteq> [] then ''-'' @ Prerelease v else [])
           @ (if Build v \<noteq> [] then ''+'' @ Build v else [])"
    by (simp add: String_def Let_def)
  from rt fmt Compare_same [of v] show ?thesis by blast
qed

theorem ParseVersion_String_roundtrip_witness:
  "ParseVersion ''v1.22-rc.1+b7'' =
     Inr \<lparr>Major = 1, Minor = 22, Patch = 0, Prerelease = ''rc.1'', Build = ''b7''\<rparr>
   \<and> String \<lparr>Major = 1, Minor = 22, Patch = 0, Prerelease = ''rc.1'', Build = ''b7''\<rparr> =
       ''1.22.0-rc.1+b7''
   \<and> ParseVersion ''1.22.0-rc.1+b7'' =
     Inr \<lparr>Major = 1, Minor = 22, Patch = 0, Prerelease = ''rc.1'', Build = ''b7''\<rparr>"
proof -
  let ?v = "\<lparr>Major = 1, Minor = 22, Patch = 0, Prerelease = ''rc.1'', Build = ''b7''\<rparr>"
  have p: "ParseVersion ''v1.22-rc.1+b7'' = Inr ?v" by code_simp
  have s: "String ?v = ''1.22.0-rc.1+b7''" by code_simp
  from ParseVersion_String_roundtrip [OF p] have "ParseVersion (String ?v) = Inr ?v" by blast
  with p s show ?thesis by simp
qed

end
